theory Spec2Isabelle
  imports Main
begin

section \<open>Strings as Python sees them\<close>

text \<open>
  The shell (\<^verbatim>\<open>src/shell.py\<close>) works on Python \<^verbatim>\<open>str\<close> values. They are modelled as
  \<^typ>\<open>string\<close>, so a character is a code point below 256. \<^verbatim>\<open>str.strip()\<close>,
  \<^verbatim>\<open>str.split()\<close> and the regular-expression class \<^verbatim>\<open>\s\<close> all use the same notion of
  whitespace (\<^verbatim>\<open>str.isspace\<close>); below 256 these are the code points 9 to 13, 28 to 32,
  0x85 and 0xA0.
\<close>

definition is_space :: "char \<Rightarrow> bool" where
  "is_space c \<longleftrightarrow> c \<in> {CHR 0x09, CHR 0x0A, CHR 0x0B, CHR 0x0C, CHR 0x0D,
                      CHR 0x1C, CHR 0x1D, CHR 0x1E, CHR 0x1F, CHR 0x20, CHR 0x85, CHR 0xA0}"

definition non_space :: "char \<Rightarrow> bool" where
  "non_space c \<longleftrightarrow> \<not> is_space c"

text \<open>\<^verbatim>\<open>s.strip()\<close>: whitespace removed at both ends.\<close>

definition strip :: "string \<Rightarrow> string" where
  "strip s = rev (dropWhile is_space (rev (dropWhile is_space s)))"

text \<open>\<^verbatim>\<open>s.endswith('&')\<close> and \<^verbatim>\<open>s.startswith(p)\<close>.\<close>

definition endswith_amp :: "string \<Rightarrow> bool" where
  "endswith_amp s \<longleftrightarrow> s \<noteq> [] \<and> last s = CHR ''&''"

definition startswith :: "string \<Rightarrow> string \<Rightarrow> bool" where
  "startswith s p \<longleftrightarrow> take (length p) s = p"

text \<open>
  \<^verbatim>\<open>s.split(d)\<close> for a one-character separator (also \<^verbatim>\<open>re.split(":", s)\<close>): empty fields
  are kept, and the result always has at least one element.
\<close>

fun split_on :: "char \<Rightarrow> string \<Rightarrow> string list" where
  "split_on d [] = [[]]"
| "split_on d (c # cs) =
     (if c = d then [] # split_on d cs
      else (case split_on d cs of
              x # xs \<Rightarrow> (c # x) # xs
            | [] \<Rightarrow> [[c]]))"

text \<open>\<^verbatim>\<open>s.split()\<close>: the maximal runs of non-whitespace characters, in order.\<close>

function split_ws :: "string \<Rightarrow> string list" where
  "split_ws s =
     (case dropWhile is_space s of
        [] \<Rightarrow> []
      | c # cs \<Rightarrow> takeWhile non_space (c # cs) # split_ws (dropWhile non_space (c # cs)))"
  by pat_completeness auto
termination
proof (relation "measure length")
  show "wf (measure length)" by simp
next
  fix s :: string and c cs
  assume a: "dropWhile is_space s = c # cs"
  have "\<not> is_space c"
    using a hd_dropWhile [of is_space s] by simp
  then have "length (dropWhile non_space (c # cs)) \<le> length cs"
    by (simp add: non_space_def length_dropWhile_le)
  also have "length cs < length (dropWhile is_space s)"
    using a by simp
  also have "\<dots> \<le> length s"
    by (rule length_dropWhile_le)
  finally show "(dropWhile non_space (c # cs), s) \<in> measure length"
    by simp
qed

declare split_ws.simps [simp del]

subsection \<open>The parser's three regular expressions\<close>

text \<open>
  \<^verbatim>\<open>re.search(r'<\s*(\S+)', cmd)\<close> and \<^verbatim>\<open>re.search(r'>\s*(\S+)', cmd)\<close>, group 1 of the
  leftmost match or \<open>None\<close>. At an occurrence of the marker, \<^verbatim>\<open>\s*\<close> takes the whole
  whitespace run and \<^verbatim>\<open>\S+\<close> the whole run of non-whitespace characters after it;
  when that run is empty no shorter \<^verbatim>\<open>\s*\<close> helps (the next character would be
  whitespace or the end), so the search goes on at the next character.
\<close>

fun re_search_redir :: "char \<Rightarrow> string \<Rightarrow> string option" where
  "re_search_redir m [] = None"
| "re_search_redir m (c # cs) =
     (if c = m \<and> dropWhile is_space cs \<noteq> []
      then Some (takeWhile non_space (dropWhile is_space cs))
      else re_search_redir m cs)"

text \<open>
  \<^verbatim>\<open>re.sub(r'[<>]\s*\S+', '', cmd)\<close>: every leftmost, non-overlapping match is deleted;
  after a match the scan goes on behind it.
\<close>

function re_sub_redir :: "string \<Rightarrow> string" where
  "re_sub_redir [] = []"
| "re_sub_redir (c # cs) =
     (if (c = CHR ''<'' \<or> c = CHR ''>'') \<and> dropWhile is_space cs \<noteq> []
      then re_sub_redir (dropWhile non_space (dropWhile is_space cs))
      else c # re_sub_redir cs)"
  by pat_completeness auto
termination
proof (relation "measure length")
  show "wf (measure length)" by simp
next
  fix c :: char and cs :: string
  have "length (dropWhile non_space (dropWhile is_space cs)) \<le> length (dropWhile is_space cs)"
    by (rule length_dropWhile_le)
  also have "\<dots> \<le> length cs"
    by (rule length_dropWhile_le)
  finally show "(dropWhile non_space (dropWhile is_space cs), c # cs) \<in> measure length"
    by simp
next
  fix c :: char and cs :: string
  show "(cs, c # cs) \<in> measure length" by simp
qed

section \<open>The operating system as the shell sees it\<close>

text \<open>
  Every system call the shell makes is recorded as an event. What the system answers is
  not computed by the shell, so the answers are part of the state: the results of the
  coming \<^verbatim>\<open>os.pipe\<close>, \<^verbatim>\<open>os.fork\<close> and \<^verbatim>\<open>os.wait\<close>/\<^verbatim>\<open>os.waitpid\<close> calls (an exhausted
  list is the call raising \<^verbatim>\<open>OSError\<close>, resp. \<^verbatim>\<open>ChildProcessError\<close>), which files
  \<^verbatim>\<open>os.access(_, X_OK)\<close> accepts, how \<^verbatim>\<open>os.open\<close> and \<^verbatim>\<open>os.execve\<close> fail if they do
  (\<^verbatim>\<open>FileNotFoundError\<close> for a missing file), and the value of \<^verbatim>\<open>PATH\<close>. The state also holds the descriptors
  open in the running process. The calls on a descriptor (\<^verbatim>\<open>os.close\<close>, \<^verbatim>\<open>os.dup2\<close>,
  \<^verbatim>\<open>os.set_inheritable\<close>, \<^verbatim>\<open>os.write\<close>) are taken to succeed. The answer of
  \<^verbatim>\<open>os.fork\<close> may be any integer: the code tests \<^verbatim>\<open>rc < 0\<close>, and the model has that
  branch as it is written.
\<close>

datatype exn =
    ValueError | TypeError | KeyError | OSError | ChildProcessError | FileNotFoundError
  | SystemExit int

datatype open_mode = O_RDONLY | O_CREAT_WRONLY

datatype event =
    EPipe int int
  | ESetInheritable int
  | EGetpid
  | EFork int
  | EClose int
  | EDup2 int int
  | EOpen string open_mode int
  | EWrite int string
  | EWaitpid int "int \<times> int"
  | EWait "int \<times> int"
  | EExecve string "string list"
  | EPrint string

record os =
  trace :: "event list"
  fds :: "int list"
  pipe_results :: "(int \<times> int) list"
  fork_results :: "int list"
  wait_results :: "(int \<times> int) list"
  executable :: "string \<Rightarrow> bool"
  open_error :: "string \<Rightarrow> open_mode \<Rightarrow> exn option"
  execve_error :: "string \<Rightarrow> exn option"
  env_PATH :: "string option"

text \<open>
  A call returns a value, raises, or (after a successful \<^verbatim>\<open>os.execve\<close>) never comes
  back because the process now runs another program.
\<close>

datatype 'a res = Ret 'a | Raise exn | Replaced string "string list"

type_synonym 'a prog = "os \<Rightarrow> 'a res \<times> os"

definition bind :: "'a prog \<Rightarrow> ('a \<Rightarrow> 'b prog) \<Rightarrow> 'b prog" where
  "bind m f w =
     (case m w of
        (Ret x, w') \<Rightarrow> f x w'
      | (Raise e, w') \<Rightarrow> (Raise e, w')
      | (Replaced p a, w') \<Rightarrow> (Replaced p a, w'))"

definition ret :: "'a \<Rightarrow> 'a prog" where
  "ret x w = (Ret x, w)"

definition raise :: "exn \<Rightarrow> 'a prog" where
  "raise e w = (Raise e, w)"

definition emit :: "event \<Rightarrow> os \<Rightarrow> os" where
  "emit e w = w\<lparr>trace := trace w @ [e]\<rparr>"

definition os_write :: "int \<Rightarrow> string \<Rightarrow> unit prog" where
  "os_write fd s w = (Ret (), emit (EWrite fd s) w)"

text \<open>\<^verbatim>\<open>print(s)\<close>: the text and a newline on \<^verbatim>\<open>sys.stdout\<close>.\<close>

definition print :: "string \<Rightarrow> unit prog" where
  "print s w = (Ret (), emit (EPrint s) w)"

definition sys_exit :: "int \<Rightarrow> 'a prog" where
  "sys_exit n = raise (SystemExit n)"

definition os_pipe :: "(int \<times> int) prog" where
  "os_pipe w =
     (case pipe_results w of
        [] \<Rightarrow> (Raise OSError, w)
      | p # rest \<Rightarrow>
          (Ret p, emit (EPipe (fst p) (snd p))
                    (w\<lparr>pipe_results := rest, fds := fds w @ [fst p, snd p]\<rparr>)))"

definition os_set_inheritable :: "int \<Rightarrow> unit prog" where
  "os_set_inheritable fd w = (Ret (), emit (ESetInheritable fd) w)"

definition os_getpid :: "unit prog" where
  "os_getpid w = (Ret (), emit EGetpid w)"

definition os_fork :: "int prog" where
  "os_fork w =
     (case fork_results w of
        [] \<Rightarrow> (Raise OSError, w)
      | r # rest \<Rightarrow> (Ret r, emit (EFork r) (w\<lparr>fork_results := rest\<rparr>)))"

definition os_close :: "int \<Rightarrow> unit prog" where
  "os_close fd w = (Ret (), emit (EClose fd) (w\<lparr>fds := removeAll fd (fds w)\<rparr>))"

definition os_dup2 :: "int \<Rightarrow> int \<Rightarrow> unit prog" where
  "os_dup2 fd fd2 w =
     (Ret (), emit (EDup2 fd fd2)
                (w\<lparr>fds := (if fd2 \<in> set (fds w) then fds w else fds w @ [fd2])\<rparr>))"

text \<open>
  A path or an argument with a NUL character in it is refused by \<^verbatim>\<open>os.access\<close>,
  \<^verbatim>\<open>os.open\<close> and \<^verbatim>\<open>os.execve\<close> before the system is asked: they raise \<^verbatim>\<open>ValueError\<close>
  (embedded null byte).
\<close>

definition has_nul :: "string \<Rightarrow> bool" where
  "has_nul s \<longleftrightarrow> CHR 0x00 \<in> set s"

definition os_access :: "string \<Rightarrow> bool prog" where
  "os_access path w =
     (if has_nul path then (Raise ValueError, w) else (Ret (executable w path), w))"

text \<open>\<^verbatim>\<open>os.open\<close> returns the lowest descriptor that is not open.\<close>

definition lowest_free :: "int list \<Rightarrow> int" where
  "lowest_free ds = hd (filter (\<lambda>n. n \<notin> set ds) (map int [0 ..< Suc (length ds)]))"

definition os_open :: "string \<Rightarrow> open_mode \<Rightarrow> int prog" where
  "os_open path mode w =
     (if has_nul path then (Raise ValueError, w)
      else (case open_error w path mode of
              None \<Rightarrow>
                (let fd = lowest_free (fds w)
                 in (Ret fd, emit (EOpen path mode fd) (w\<lparr>fds := fds w @ [fd]\<rparr>)))
            | Some e \<Rightarrow> (Raise e, w)))"

definition os_waitpid :: "int \<Rightarrow> (int \<times> int) prog" where
  "os_waitpid pid w =
     (case wait_results w of
        [] \<Rightarrow> (Raise ChildProcessError, w)
      | r # rest \<Rightarrow> (Ret r, emit (EWaitpid pid r) (w\<lparr>wait_results := rest\<rparr>)))"

definition os_wait :: "(int \<times> int) prog" where
  "os_wait w =
     (case wait_results w of
        [] \<Rightarrow> (Raise ChildProcessError, w)
      | r # rest \<Rightarrow> (Ret r, emit (EWait r) (w\<lparr>wait_results := rest\<rparr>)))"

definition os_execve :: "string \<Rightarrow> string list \<Rightarrow> unit prog" where
  "os_execve exe argv w =
     (if has_nul exe \<or> (\<exists>a \<in> set argv. has_nul a) then (Raise ValueError, w)
      else (case execve_error w exe of
              None \<Rightarrow> (Replaced exe argv, emit (EExecve exe argv) w)
            | Some e \<Rightarrow> (Raise e, emit (EExecve exe argv) w)))"

subsection \<open>Integers in messages\<close>

text \<open>\<^verbatim>\<open>"%d" % n\<close> and \<^verbatim>\<open>f"{n}"\<close> for an integer: its decimal digits, with a sign.\<close>

definition digit_char :: "nat \<Rightarrow> char" where
  "digit_char n = ''0123456789'' ! n"

fun str_nat :: "nat \<Rightarrow> string" where
  "str_nat n = (if n < 10 then [digit_char n] else str_nat (n div 10) @ [digit_char (n mod 10)])"

declare str_nat.simps [simp del]

definition str_int :: "int \<Rightarrow> string" where
  "str_int i = (if i < 0 then CHR ''-'' # str_nat (nat (- i)) else str_nat (nat i))"

section \<open>The parser\<close>

text \<open>
  A command dictionary with the keys \<^verbatim>\<open>cmd\<close>, \<^verbatim>\<open>args\<close>, \<^verbatim>\<open>input\<close>, \<^verbatim>\<open>output\<close> and
  \<^verbatim>\<open>background\<close> (\<open>input_file\<close> and \<open>output_file\<close> stand for the keys \<^verbatim>\<open>input\<close> and
  \<^verbatim>\<open>output\<close>).
\<close>

record stage =
  cmd :: string
  args :: "string list"
  input_file :: "string option"
  output_file :: "string option"
  background :: bool

text \<open>\<^verbatim>\<open>parser\<close> returns a list of command dictionaries, or \<^verbatim>\<open>False\<close>.\<close>

datatype parsed = PFalse | PList "stage list"

definition syntax_error_msg :: string where
  "syntax_error_msg = ''-bash: syntax error near unexpected token `|'\<newline>''"

text \<open>
  Lines 51 to 70: the redirections and the words of one trimmed segment whose
  background marker has been taken off. \<open>None\<close> when the segment has no word left, in
  which case the loop appends nothing.
\<close>

definition parse_segment :: "string \<Rightarrow> bool \<Rightarrow> stage option" where
  "parse_segment cmd0 bg =
     (let inp = re_search_redir (CHR ''<'') cmd0;
          out = re_search_redir (CHR ''>'') cmd0;
          cmd1 = strip (re_sub_redir cmd0);
          parts = split_ws cmd1
      in if parts \<noteq> []
         then Some \<lparr>cmd = hd parts, args = parts, input_file = inp, output_file = out, background = bg\<rparr>
         else None)"

text \<open>
  The \<^verbatim>\<open>while i < n_cmds\<close> loop, as a recursion on the segments still to be read:
  \<^verbatim>\<open>i < n_cmds - 1\<close> holds exactly when a segment follows the current one.
\<close>

fun parser_loop :: "string list \<Rightarrow> stage list \<Rightarrow> os \<Rightarrow> parsed \<times> os" where
  "parser_loop [] commands w = (PList commands, w)"
| "parser_loop (seg # rest) commands w =
     (let cmd0 = strip seg in
      if endswith_amp cmd0 \<and> rest \<noteq> []
      then (PFalse, emit (EWrite 2 syntax_error_msg) w)
      else
        let bg = endswith_amp cmd0;
            cmd1 = (if bg then strip (butlast cmd0) else cmd0)
        in parser_loop rest
             (case parse_segment cmd1 bg of
                Some st \<Rightarrow> commands @ [st]
              | None \<Rightarrow> commands) w)"

definition parser :: "string \<Rightarrow> os \<Rightarrow> parsed \<times> os" where
  "parser cmds w = parser_loop (split_on (CHR ''|'') cmds) [] w"

section \<open>The executable resolver\<close>

text \<open>\<^verbatim>\<open>os.path.isabs\<close> and \<^verbatim>\<open>os.path.join\<close> of two components, as \<^verbatim>\<open>posixpath\<close> defines them.\<close>

definition isabs :: "string \<Rightarrow> bool" where
  "isabs s \<longleftrightarrow> startswith s ''/''"

definition path_join :: "string \<Rightarrow> string \<Rightarrow> string" where
  "path_join a b =
     (if startswith b ''/'' then b
      else if a = [] \<or> last a = CHR ''/'' then a @ b
      else a @ ''/'' @ b)"

text \<open>The \<^verbatim>\<open>for path in paths\<close> loop, with \<^verbatim>\<open>os.access(exe, os.X_OK)\<close> as its test.\<close>

fun search_paths :: "string list \<Rightarrow> string \<Rightarrow> string option prog" where
  "search_paths [] name w = (Ret None, w)"
| "search_paths (path # paths) name w =
     (let exe = path_join path name in
      case os_access exe w of
        (Ret ok, w') \<Rightarrow> if ok then (Ret (Some exe), w') else search_paths paths name w'
      | (Raise e, w') \<Rightarrow> (Raise e, w')
      | (Replaced p a, w') \<Rightarrow> (Replaced p a, w'))"

text \<open>
  \<^verbatim>\<open>os.path.isabs(cmd) and os.access(cmd, os.X_OK)\<close> asks \<^verbatim>\<open>os.access\<close> only for an
  absolute name. \<^verbatim>\<open>os.environ['PATH']\<close> raises \<^verbatim>\<open>KeyError\<close> when the variable is not set.
\<close>

definition find_executable :: "stage \<Rightarrow> string option prog" where
  "find_executable c =
     (let name = cmd c in
      bind (if isabs name then os_access name else ret False) (\<lambda>ok.
        if ok then ret (Some name)
        else (\<lambda>w. case env_PATH w of
                     None \<Rightarrow> (Raise KeyError, w)
                   | Some p \<Rightarrow> search_paths (split_on (CHR '':'') p) name w)))"

section \<open>The process orchestrator\<close>

text \<open>
  \<^verbatim>\<open>execute\<close>: \<^verbatim>\<open>sys.exit(1)\<close> after a message when nothing was resolved; otherwise
  \<^verbatim>\<open>os.execve\<close>, of whose failures only \<^verbatim>\<open>FileNotFoundError\<close> is caught.
\<close>

definition execute :: "string option \<Rightarrow> stage \<Rightarrow> unit prog" where
  "execute exe c =
     (case exe of
        None \<Rightarrow> bind (os_write 2 (cmd c @ '': command not found\<newline>'')) (\<lambda>_. sys_exit 1)
      | Some e \<Rightarrow>
          (\<lambda>w. case os_execve e (args c) w of
                 (Raise FileNotFoundError, w') \<Rightarrow>
                   bind (os_write 2 (''Failed to execute: '' @ e)) (\<lambda>_. sys_exit 1) w'
               | r \<Rightarrow> r))"

text \<open>
  \<^verbatim>\<open>redirect\<close> has the same three calls for each direction; \<open>redirect_to\<close> is that
  block. \<^verbatim>\<open>if cmd['input']:\<close> is false for \<^verbatim>\<open>None\<close> and for the empty string.
\<close>

definition redirect_to :: "int \<Rightarrow> open_mode \<Rightarrow> string option \<Rightarrow> unit prog" where
  "redirect_to fd mode p =
     (case p of
        None \<Rightarrow> ret ()
      | Some path \<Rightarrow>
          if path \<noteq> []
          then bind (os_close fd) (\<lambda>_.
               bind (os_open path mode) (\<lambda>_.
               os_set_inheritable fd))
          else ret ())"

definition redirect :: "stage \<Rightarrow> unit prog" where
  "redirect c =
     bind (redirect_to 0 O_RDONLY (input_file c)) (\<lambda>_.
     redirect_to 1 O_CREAT_WRONLY (output_file c))"

text \<open>
  Line 168, \<^verbatim>\<open>cmd_0, cmd_1 = cmds if len(cmds) != 1 else (cmds[0], None)\<close>: a list of
  one command gives \<open>(cmd_0, None)\<close>, a list of two gives both, and any other length
  makes the unpacking raise \<^verbatim>\<open>ValueError\<close> (here \<open>None\<close>).
\<close>

fun unpack_cmds :: "stage list \<Rightarrow> (stage \<times> stage option) option" where
  "unpack_cmds [c0] = Some (c0, None)"
| "unpack_cmds [c0, c1] = Some (c0, Some c1)"
| "unpack_cmds _ = None"

definition child_exit_msg :: "string \<Rightarrow> int \<times> int \<Rightarrow> string" where
  "child_exit_msg who st =
     ''Parent: Child '' @ who @ str_int (fst st) @ '' terminated with exit code ''
       @ str_int (snd st) @ ''\<newline>''"

text \<open>Lines 185 to 195: the first child.\<close>

definition child1 :: "stage \<Rightarrow> stage option \<Rightarrow> (int \<times> int) option \<Rightarrow> unit prog" where
  "child1 cmd_0 cmd_1 pp =
     bind (find_executable cmd_0) (\<lambda>exe.
     bind (redirect cmd_0) (\<lambda>_.
     bind (case cmd_1 of
             None \<Rightarrow> ret ()
           | Some _ \<Rightarrow>
               (case pp of
                  None \<Rightarrow> raise TypeError
                | Some (pr, pw) \<Rightarrow>
                    bind (os_close pr) (\<lambda>_.
                    bind (os_dup2 pw 1) (\<lambda>_.
                    os_close pw)))) (\<lambda>_.
     execute exe cmd_0)))"

text \<open>Lines 213 to 220: the second child.\<close>

definition child2 :: "stage \<Rightarrow> int \<Rightarrow> unit prog" where
  "child2 c1 pr =
     bind (find_executable c1) (\<lambda>exe2.
     bind (redirect c1) (\<lambda>_.
     bind (os_dup2 pr 0) (\<lambda>_.
     bind (os_close pr) (\<lambda>_.
     execute exe2 c1))))"

text \<open>Lines 198 to 233: the parent of a pipe of two commands.\<close>

definition parent_pipe :: "stage \<Rightarrow> int \<Rightarrow> int \<Rightarrow> int \<Rightarrow> bool \<Rightarrow> unit prog" where
  "parent_pipe c1 pr pw rc is_background =
     bind (os_close pw) (\<lambda>_.
     bind (os_waitpid rc) (\<lambda>child1_status.
     bind (if snd child1_status \<noteq> 0
           then os_write 2 (child_exit_msg ''1 '' child1_status)
           else ret ()) (\<lambda>_.
     bind os_fork (\<lambda>rc2.
       if rc2 < 0
       then bind (os_write 2 (''Second fork failed, returning '' @ str_int rc @ ''\<newline>''))
              (\<lambda>_. sys_exit 1)
       else if rc2 = 0 then child2 c1 pr
       else
         bind (os_close pr) (\<lambda>_.
           if is_background
           then os_write 2 ''Background process (pipe)\<newline>''
           else
             bind (os_waitpid rc2) (\<lambda>child2_status.
               if snd child2_status \<noteq> 0
               then os_write 1 (child_exit_msg ''2 '' child2_status)
               else ret ()))))))"

text \<open>Lines 235 to 244: the parent of a single command.\<close>

definition parent_single :: "bool \<Rightarrow> unit prog" where
  "parent_single is_background =
     (if is_background
      then os_write 2 ''Background process (single)\<newline>''
      else
        bind os_wait (\<lambda>childPidCode.
          if snd childPidCode \<noteq> 0
          then os_write 1 (child_exit_msg [] childPidCode)
          else ret ()))"

definition run_cmds :: "stage list \<Rightarrow> unit prog" where
  "run_cmds cmds =
     (case unpack_cmds cmds of
        None \<Rightarrow> raise ValueError
      | Some (cmd_0, cmd_1) \<Rightarrow>
          (let is_background = background (last cmds) in
           bind (case cmd_1 of
                   None \<Rightarrow> ret None
                 | Some _ \<Rightarrow>
                     bind os_pipe (\<lambda>p.
                     bind (os_set_inheritable (fst p)) (\<lambda>_.
                     bind (os_set_inheritable (snd p)) (\<lambda>_.
                     ret (Some p))))) (\<lambda>pp.
           bind os_getpid (\<lambda>_.
           bind os_fork (\<lambda>rc.
             if rc < 0
             then bind (os_write 2 (''Fork failed, returning '' @ str_int rc @ ''\<newline>''))
                    (\<lambda>_. sys_exit 1)
             else if rc = 0 then child1 cmd_0 cmd_1 pp
             else
               (case cmd_1 of
                  Some c1 \<Rightarrow>
                    (case pp of
                       None \<Rightarrow> raise TypeError
                     | Some (pr, pw) \<Rightarrow> parent_pipe c1 pr pw rc is_background)
                | None \<Rightarrow> parent_single is_background))))))"

section \<open>The driver\<close>

text \<open>
  Lines 255 to 268, the body of the read loop for one line that has been read and
  trimmed: \<^verbatim>\<open>exit\<close> leaves with \<^verbatim>\<open>sys.exit(0)\<close>, an empty line prints an empty line,
  and a parse result that is \<^verbatim>\<open>False\<close> or the empty list prints \<^verbatim>\<open>no commands\<close>; only
  a non-empty list reaches \<^verbatim>\<open>run_cmds\<close>.
\<close>

definition shell_step :: "string \<Rightarrow> unit prog" where
  "shell_step user_in =
     (if startswith user_in ''exit'' then sys_exit 0
      else if length user_in = 0 then print []
      else
        (\<lambda>w. case parser user_in w of
               (PFalse, w') \<Rightarrow> print ''no commands'' w'
             | (PList parsed_cmds, w') \<Rightarrow>
                 if parsed_cmds = [] then print ''no commands'' w'
                 else run_cmds parsed_cmds w'))"

section \<open>Vocabulary of the properties\<close>

subsection \<open>Events of one call\<close>

text \<open>The events a call added to the trace, and the kinds of event the properties speak of.\<close>

definition new_events :: "os \<Rightarrow> os \<Rightarrow> event list" where
  "new_events w w' = drop (length (trace w)) (trace w')"

fun is_wait :: "event \<Rightarrow> bool" where
  "is_wait (EWaitpid _ _) = True"
| "is_wait (EWait _) = True"
| "is_wait _ = False"

fun is_pipe :: "event \<Rightarrow> bool" where
  "is_pipe (EPipe _ _) = True"
| "is_pipe _ = False"

subsection \<open>Well-formed segments\<close>

text \<open>
  The grammar of a segment: words and redirection clauses. A plain token is not empty
  and has neither whitespace nor a redirection marker in it; a clause is a marker, a
  possibly empty run of whitespace and a plain path. \<open>render\<close> writes the items with
  one blank between them.
\<close>

definition all_space :: "string \<Rightarrow> bool" where
  "all_space s \<longleftrightarrow> (\<forall>c \<in> set s. is_space c)"

definition is_marker :: "char \<Rightarrow> bool" where
  "is_marker c \<longleftrightarrow> c = CHR ''<'' \<or> c = CHR ''>''"

definition plain :: "string \<Rightarrow> bool" where
  "plain t \<longleftrightarrow> t \<noteq> [] \<and> (\<forall>c \<in> set t. \<not> is_space c \<and> \<not> is_marker c)"

definition ws_start :: "string \<Rightarrow> bool" where
  "ws_start r \<longleftrightarrow> r = [] \<or> is_space (hd r)"

datatype item = Word string | RedirIn string string | RedirOut string string

fun render_item :: "item \<Rightarrow> string" where
  "render_item (Word t) = t"
| "render_item (RedirIn g p) = CHR ''<'' # g @ p"
| "render_item (RedirOut g p) = CHR ''>'' # g @ p"

fun wf_item :: "item \<Rightarrow> bool" where
  "wf_item (Word t) = plain t"
| "wf_item (RedirIn g p) = (all_space g \<and> plain p)"
| "wf_item (RedirOut g p) = (all_space g \<and> plain p)"

fun render :: "item list \<Rightarrow> string" where
  "render [] = []"
| "render (it # its) = render_item it @ (if its = [] then [] else CHR '' '' # render its)"

fun words_of :: "item list \<Rightarrow> string list" where
  "words_of [] = []"
| "words_of (Word t # its) = t # words_of its"
| "words_of (_ # its) = words_of its"

fun first_in :: "item list \<Rightarrow> string option" where
  "first_in [] = None"
| "first_in (RedirIn g p # its) = Some p"
| "first_in (_ # its) = first_in its"

fun first_out :: "item list \<Rightarrow> string option" where
  "first_out [] = None"
| "first_out (RedirOut g p # its) = Some p"
| "first_out (_ # its) = first_out its"

definition sep_tail :: "item list \<Rightarrow> string" where
  "sep_tail its = (if its = [] then [] else CHR '' '' # render its)"

text \<open>
  The text before a marker that stands alone: it is empty or ends in whitespace, and
  its last character that is not whitespace, if there is one, is not a marker (so no
  clause before it is left without its path).
\<close>

definition tail_ok :: "string \<Rightarrow> bool" where
  "tail_ok u \<longleftrightarrow>
     (u = [] \<or> is_space (last u)) \<and>
     (case dropWhile is_space (rev u) of [] \<Rightarrow> True | x # _ \<Rightarrow> \<not> is_marker x)"

subsection \<open>The resolver as the specification words it\<close>

text \<open>
  Section 4.2 of the specification: the name itself if it is absolute and executable,
  otherwise the first \<^verbatim>\<open>entry/name\<close> that is executable, the entries being the
  search path split at the separator.
\<close>

definition resolve_spec :: "(string \<Rightarrow> bool) \<Rightarrow> string \<Rightarrow> string \<Rightarrow> string option" where
  "resolve_spec ok search_path name =
     (if isabs name \<and> ok name then Some name
      else find ok (map (\<lambda>entry. entry @ ''/'' @ name) (split_on (CHR '':'') search_path)))"

subsection \<open>Example inputs\<close>

definition simple_stage :: "string \<Rightarrow> bool \<Rightarrow> stage" where
  "simple_stage name bg =
     \<lparr>cmd = name, args = [name], input_file = None, output_file = None, background = bg\<rparr>"

text \<open>
  A system that answers every call: the next pipe is \<open>(3, 4)\<close>, the next children are
  101 and 102, the first child waited for ends with status 256 and the second with 0.
\<close>

definition os0 :: os where
  "os0 = \<lparr>trace = [], fds = [0, 1, 2],
          pipe_results = [(3, 4)], fork_results = [101, 102],
          wait_results = [(101, 256), (102, 0)],
          executable = (\<lambda>p. p = ''/usr/bin/ls'' \<or> p = ''/bin/ls''),
          open_error = (\<lambda>_ _. None), execve_error = (\<lambda>_. None),
          env_PATH = Some ''/usr/local/bin:/usr/bin:/bin''\<rparr>"

text \<open>The same system with an empty entry in front of the search path and a file
  \<^verbatim>\<open>prog\<close> in the working directory.\<close>

definition os_cwd :: os where
  "os_cwd = os0\<lparr>executable := (\<lambda>p. p = ''prog''), env_PATH := Some '':/bin''\<rparr>"

text \<open>The same system as \<open>os0\<close>, but no wait ever gives a status.\<close>

definition os_stuck :: os where
  "os_stuck = os0\<lparr>wait_results := []\<rparr>"

section \<open>Properties of the string functions and of the parser\<close>

lemma split_ws_Nil: "split_ws [] = []"
  by (simp add: split_ws.simps)

lemma split_ws_Cons:
  "split_ws (c # cs) =
     (if is_space c then split_ws cs
      else takeWhile non_space (c # cs) # split_ws (dropWhile non_space (c # cs)))"
proof (cases "is_space c")
  case True
  then show ?thesis
    by (simp add: split_ws.simps [of "c # cs"] split_ws.simps [of cs])
next
  case False
  then show ?thesis
    by (simp add: split_ws.simps [of "c # cs"])
qed

lemma parser_loop_syntax_error:
  assumes "Suc i < length segs" and "endswith_amp (strip (segs ! i))"
  shows "parser_loop segs commands w = (PFalse, emit (EWrite 2 syntax_error_msg) w)"
  using assms
proof (induction segs arbitrary: i commands)
  case Nil
  then show ?case by simp
next
  case (Cons seg rest)
  show ?case
  proof (cases "endswith_amp (strip seg)")
    case True
    moreover have "rest \<noteq> []" using Cons.prems(1) by auto
    ultimately show ?thesis by simp
  next
    case False
    then obtain j where j: "i = Suc j"
      using Cons.prems(2) by (cases i) auto
    have "Suc j < length rest" "endswith_amp (strip (rest ! j))"
      using Cons.prems j by auto
    then have "parser_loop rest cs w = (PFalse, emit (EWrite 2 syntax_error_msg) w)" for cs
      by (rule Cons.IH)
    with False show ?thesis by (simp add: Let_def)
  qed
qed

lemma marker_not_space: "is_marker c \<Longrightarrow> \<not> is_space c"
  by (auto simp: is_marker_def is_space_def)

lemma dropWhile_space_all: "all_space g \<Longrightarrow> dropWhile is_space (g @ r) = dropWhile is_space r"
  by (simp add: all_space_def)

lemma dropWhile_space_plain: "plain p \<Longrightarrow> dropWhile is_space (p @ r) = p @ r"
  by (cases p) (auto simp: plain_def)

lemma takeWhile_plain: "plain p \<Longrightarrow> ws_start r \<Longrightarrow> takeWhile non_space (p @ r) = p"
  by (cases r) (auto simp: plain_def ws_start_def non_space_def takeWhile_append2 )

lemma dropWhile_plain: "plain p \<Longrightarrow> ws_start r \<Longrightarrow> dropWhile non_space (p @ r) = r"
  by (cases r) (auto simp: plain_def ws_start_def non_space_def dropWhile_append2)

lemma search_skip: "m \<notin> set t \<Longrightarrow> re_search_redir m (t @ r) = re_search_redir m r"
  by (induction t) auto

lemma search_clause:
  assumes "all_space g" "plain p" "ws_start r"
  shows "re_search_redir m (m # g @ p @ r) = Some p"
  using assms by (simp add: dropWhile_space_all dropWhile_space_plain takeWhile_plain plain_def)

lemma sub_skip: "\<forall>c \<in> set t. \<not> is_marker c \<Longrightarrow> re_sub_redir (t @ r) = t @ re_sub_redir r"
  by (induction t) (auto simp: is_marker_def)

lemma sub_clause:
  assumes "is_marker m" "all_space g" "plain p" "ws_start r"
  shows "re_sub_redir (m # g @ p @ r) = re_sub_redir r"
  using assms by (simp add: dropWhile_space_all dropWhile_space_plain dropWhile_plain plain_def is_marker_def)

lemma split_ws_plain:
  assumes "plain t" "ws_start r"
  shows "split_ws (t @ r) = t # split_ws r"
proof -
  obtain a l where t: "t = a # l" and a: "\<not> is_space a"
    using assms(1) by (cases t) (auto simp: plain_def)
  have "split_ws (a # (l @ r)) =
          takeWhile non_space (a # (l @ r)) # split_ws (dropWhile non_space (a # (l @ r)))"
    using a by (simp only: split_ws_Cons if_False)
  moreover have "a # (l @ r) = t @ r" by (simp add: t)
  ultimately show ?thesis
    by (simp only: takeWhile_plain [OF assms] dropWhile_plain [OF assms])
qed

lemma dropWhile_append_nonempty:
  "dropWhile P xs \<noteq> [] \<Longrightarrow> dropWhile P (xs @ ys) = dropWhile P xs @ ys"
  by (induction xs) auto

lemma takeWhile_append_nonempty:
  "dropWhile P xs \<noteq> [] \<Longrightarrow> takeWhile P (xs @ ys) = takeWhile P xs"
  by (induction xs) auto

lemma dropWhile_append_empty:
  "dropWhile P xs = [] \<Longrightarrow> dropWhile P (xs @ ys) = dropWhile P ys"
  by (induction xs) (auto split: if_splits)

lemma takeWhile_append_empty:
  "dropWhile P xs = [] \<Longrightarrow> takeWhile P (xs @ ys) = xs @ takeWhile P ys"
  by (induction xs) (auto split: if_splits)

lemma ws_start_takeWhile: "ws_start r \<Longrightarrow> takeWhile non_space r = []"
  by (cases r) (auto simp: ws_start_def non_space_def)

lemma ws_start_dropWhile: "ws_start r \<Longrightarrow> dropWhile non_space r = r"
  by (cases r) (auto simp: ws_start_def non_space_def)

lemma split_ws_lead: "all_space a \<Longrightarrow> split_ws (a @ x) = split_ws x"
  by (simp add: split_ws.simps [of "a @ x"] split_ws.simps [of x] dropWhile_space_all)

lemma split_ws_all_space: "all_space a \<Longrightarrow> split_ws a = []"
  using split_ws_lead [of a "[]"] by (simp add: split_ws_Nil)

lemma split_ws_append:
  "ws_start r \<Longrightarrow> split_ws (s @ r) = split_ws s @ split_ws r"
proof (induction s rule: split_ws.induct)
  case (1 s)
  show ?case
  proof (cases "dropWhile is_space s")
    case Nil
    then have "all_space s"
      by (simp add: all_space_def dropWhile_eq_Nil_conv)
    then show ?thesis
      by (simp add: split_ws_lead split_ws_all_space)
  next
    case (Cons c cs)
    let ?d = "c # cs"
    have d: "dropWhile is_space (s @ r) = ?d @ r"
      using Cons dropWhile_append_nonempty [of is_space s r] by simp
    have left: "split_ws (s @ r) =
        takeWhile non_space (?d @ r) # split_ws (dropWhile non_space (?d @ r))"
      by (subst split_ws.simps) (simp add: d)
    have right: "split_ws s = takeWhile non_space ?d # split_ws (dropWhile non_space ?d)"
      by (subst split_ws.simps) (simp add: Cons)
    show ?thesis
    proof (cases "dropWhile non_space ?d = []")
      case True
      have "takeWhile non_space ?d = ?d"
        using True by (metis append_Nil2 takeWhile_dropWhile_id)
      with True show ?thesis
        using 1(2)
        by (simp only: left right takeWhile_append_empty [OF True] dropWhile_append_empty [OF True]
              ws_start_takeWhile ws_start_dropWhile split_ws_Nil) simp
    next
      case False
      have "split_ws (dropWhile non_space ?d @ r) = split_ws (dropWhile non_space ?d) @ split_ws r"
        using 1 Cons by blast
      then show ?thesis
        by (simp only: left right takeWhile_append_nonempty [OF False]
              dropWhile_append_nonempty [OF False]) simp
    qed
  qed
qed

lemma strip_decomp:
  "\<exists>a b. all_space a \<and> all_space b \<and> s = a @ strip s @ b"
proof -
  let ?d = "dropWhile is_space s"
  have 1: "s = takeWhile is_space s @ ?d" by simp
  have "rev (takeWhile is_space (rev ?d) @ dropWhile is_space (rev ?d)) = ?d"
    by (simp only: takeWhile_dropWhile_id rev_rev_ident)
  then have "rev (dropWhile is_space (rev ?d)) @ rev (takeWhile is_space (rev ?d)) = ?d"
    by (simp only: rev_append)
  then have 2: "?d = strip s @ rev (takeWhile is_space (rev ?d))"
    by (simp only: strip_def)
  have "all_space (takeWhile is_space s)" "all_space (rev (takeWhile is_space (rev ?d)))"
    by (auto simp: all_space_def dest: set_takeWhileD)
  with 1 2 show ?thesis by metis
qed

lemma all_space_ws_start: "all_space b \<Longrightarrow> ws_start b"
  by (cases b) (auto simp: all_space_def ws_start_def)

lemma split_ws_strip: "split_ws (strip s) = split_ws s"
proof -
  obtain a b where ab: "all_space a" "all_space b" "s = a @ strip s @ b"
    using strip_decomp by blast
  have "split_ws s = split_ws (a @ strip s @ b)" using ab(3) by simp
  also have "\<dots> = split_ws (strip s @ b)" by (rule split_ws_lead [OF ab(1)])
  also have "\<dots> = split_ws (strip s) @ split_ws b"
    by (rule split_ws_append [OF all_space_ws_start [OF ab(2)]])
  finally show ?thesis by (simp add: split_ws_all_space [OF ab(2)])
qed

lemma render_Cons: "render (it # its) = render_item it @ sep_tail its"
  by (simp add: sep_tail_def)

lemma ws_start_sep_tail: "ws_start (sep_tail its)"
  by (simp add: sep_tail_def ws_start_def is_space_def)

lemma search_sep_tail: "is_marker m \<Longrightarrow> re_search_redir m (sep_tail its) = re_search_redir m (render its)"
  by (cases its) (auto simp: sep_tail_def is_marker_def)

lemma sub_sep_tail: "split_ws (re_sub_redir (sep_tail its)) = split_ws (re_sub_redir (render its))"
  by (cases its) (auto simp: sep_tail_def split_ws_Cons is_space_def)

lemma plain_no_marker: "plain t \<Longrightarrow> is_marker m \<Longrightarrow> m \<notin> set t"
  by (auto simp: plain_def)

lemma all_space_no_marker: "all_space g \<Longrightarrow> is_marker m \<Longrightarrow> m \<notin> set g"
  by (auto simp: all_space_def dest: marker_not_space)

lemma search_in_render:
  "list_all wf_item its \<Longrightarrow> re_search_redir (CHR ''<'') (render its) = first_in its"
proof (induction its)
  case Nil
  then show ?case by simp
next
  case (Cons it its)
  have m: "is_marker (CHR ''<'')" "is_marker (CHR ''>'')" by (simp_all add: is_marker_def)
  have IH: "re_search_redir (CHR ''<'') (sep_tail its) = first_in its"
    using Cons by (simp add: search_sep_tail m)
  show ?case
  proof (cases it)
    case (Word t)
    then have "CHR ''<'' \<notin> set t" using Cons.prems plain_no_marker m by simp
    then show ?thesis
      unfolding render_Cons using Word IH by (simp add: search_skip)
  next
    case (RedirIn g p)
    then have "all_space g" "plain p" using Cons.prems by simp_all
    then show ?thesis
      unfolding render_Cons using RedirIn search_clause [OF _ _ ws_start_sep_tail] by simp
  next
    case (RedirOut g p)
    then have "CHR ''<'' \<notin> set (CHR ''>'' # g @ p)"
      using Cons.prems plain_no_marker all_space_no_marker m by auto
    then have "re_search_redir (CHR ''<'') ((CHR ''>'' # g @ p) @ sep_tail its)
                 = re_search_redir (CHR ''<'') (sep_tail its)"
      by (rule search_skip)
    then show ?thesis
      unfolding render_Cons using RedirOut IH by simp
  qed
qed

lemma search_out_render:
  "list_all wf_item its \<Longrightarrow> re_search_redir (CHR ''>'') (render its) = first_out its"
proof (induction its)
  case Nil
  then show ?case by simp
next
  case (Cons it its)
  have m: "is_marker (CHR ''<'')" "is_marker (CHR ''>'')" by (simp_all add: is_marker_def)
  have IH: "re_search_redir (CHR ''>'') (sep_tail its) = first_out its"
    using Cons by (simp add: search_sep_tail m)
  show ?case
  proof (cases it)
    case (Word t)
    then have "CHR ''>'' \<notin> set t" using Cons.prems plain_no_marker m by simp
    then show ?thesis
      unfolding render_Cons using Word IH by (simp add: search_skip)
  next
    case (RedirOut g p)
    then have "all_space g" "plain p" using Cons.prems by simp_all
    then show ?thesis
      unfolding render_Cons using RedirOut search_clause [OF _ _ ws_start_sep_tail] by simp
  next
    case (RedirIn g p)
    then have "CHR ''>'' \<notin> set (CHR ''<'' # g @ p)"
      using Cons.prems plain_no_marker all_space_no_marker m by auto
    then have "re_search_redir (CHR ''>'') ((CHR ''<'' # g @ p) @ sep_tail its)
                 = re_search_redir (CHR ''>'') (sep_tail its)"
      by (rule search_skip)
    then show ?thesis
      unfolding render_Cons using RedirIn IH by simp
  qed
qed

lemma words_render:
  "list_all wf_item its \<Longrightarrow> split_ws (re_sub_redir (render its)) = words_of its"
proof (induction its)
  case Nil
  then show ?case by (simp add: split_ws_Nil)
next
  case (Cons it its)
  have m: "is_marker (CHR ''<'')" "is_marker (CHR ''>'')" by (simp_all add: is_marker_def)
  have IH: "split_ws (re_sub_redir (sep_tail its)) = words_of its"
    using Cons by (simp add: sub_sep_tail)
  have ws: "ws_start (re_sub_redir (sep_tail its))"
    by (cases its) (auto simp: sep_tail_def ws_start_def is_space_def)
  show ?case
  proof (cases it)
    case (Word t)
    then have t: "plain t" using Cons.prems by simp
    then have "re_sub_redir (t @ sep_tail its) = t @ re_sub_redir (sep_tail its)"
      by (intro sub_skip) (simp add: plain_def)
    then show ?thesis
      unfolding render_Cons using Word IH split_ws_plain [OF t ws] by simp
  next
    case (RedirIn g p)
    then have "all_space g" "plain p" using Cons.prems by simp_all
    then have "re_sub_redir (CHR ''<'' # g @ p @ sep_tail its) = re_sub_redir (sep_tail its)"
      by (intro sub_clause m ws_start_sep_tail)
    then show ?thesis
      unfolding render_Cons using RedirIn IH by simp
  next
    case (RedirOut g p)
    then have "all_space g" "plain p" using Cons.prems by simp_all
    then have "re_sub_redir (CHR ''>'' # g @ p @ sep_tail its) = re_sub_redir (sep_tail its)"
      by (intro sub_clause m ws_start_sep_tail)
    then show ?thesis
      unfolding render_Cons using RedirOut IH by simp
  qed
qed

lemma parse_segment_render:
  assumes "list_all wf_item its"
  shows "parse_segment (render its) bg =
     (if words_of its = [] then None
      else Some \<lparr>cmd = hd (words_of its), args = words_of its,
                 input_file = first_in its, output_file = first_out its, background = bg\<rparr>)"
  using assms
  by (simp add: parse_segment_def Let_def split_ws_strip words_render search_in_render search_out_render)

lemma tail_ok_Nil: "tail_ok []"
  by (simp add: tail_ok_def)

lemma tail_ok_Cons:
  assumes "tail_ok (c # cs)"
  shows "tail_ok cs"
proof (cases "dropWhile is_space (rev cs) = []")
  case True
  then have "\<forall>x \<in> set cs. is_space x"
    by (simp add: dropWhile_eq_Nil_conv)
  then have "cs = [] \<or> is_space (last cs)"
    using last_in_set by blast
  moreover have "case dropWhile is_space (rev cs) of [] \<Rightarrow> True | x # _ \<Rightarrow> \<not> is_marker x"
    by (simp only: True list.case)
  ultimately show ?thesis by (simp only: tail_ok_def simp_thms)
next
  case False
  then have cs: "cs \<noteq> []" by auto
  have "dropWhile is_space (rev (c # cs)) = dropWhile is_space (rev cs) @ [c]"
    using False by (simp add: dropWhile_append_nonempty)
  with assms False cs show ?thesis
    by (auto simp: tail_ok_def split: list.splits)
qed

lemma tail_ok_dropWhile: "tail_ok u \<Longrightarrow> tail_ok (dropWhile Q u)"
  by (induction u) (auto dest: tail_ok_Cons)

lemma tail_ok_has_space: "tail_ok d \<Longrightarrow> d \<noteq> [] \<Longrightarrow> dropWhile non_space d \<noteq> []"
proof
  assume a: "tail_ok d" "d \<noteq> []" "dropWhile non_space d = []"
  then have "non_space (last d)"
    by (simp add: dropWhile_eq_Nil_conv)
  with a show False by (simp add: tail_ok_def non_space_def)
qed

lemma tail_ok_marker:
  assumes "tail_ok (c # cs)" "is_marker c"
  shows "dropWhile is_space cs \<noteq> []"
proof
  assume "dropWhile is_space cs = []"
  then have "dropWhile is_space (rev cs) = []"
    by (simp add: dropWhile_eq_Nil_conv)
  then have "dropWhile is_space (rev (c # cs)) = [c]"
    using marker_not_space [OF assms(2)] by (simp add: dropWhile_append_empty)
  with assms show False by (simp add: tail_ok_def)
qed

lemma sub_append:
  "tail_ok u \<Longrightarrow> re_sub_redir (u @ r) = re_sub_redir u @ re_sub_redir r"
proof (induction u rule: re_sub_redir.induct)
  case 1
  then show ?case by simp
next
  case (2 c cs)
  show ?case
  proof (cases "is_marker c")
    case True
    let ?d = "dropWhile is_space cs"
    have d: "?d \<noteq> []" using tail_ok_marker [OF "2.prems" True] .
    have okd: "tail_ok ?d"
      using "2.prems" by (intro tail_ok_dropWhile) (rule tail_ok_Cons)
    have 1: "dropWhile is_space (cs @ r) = ?d @ r"
      using d by (rule dropWhile_append_nonempty)
    have 2: "dropWhile non_space (?d @ r) = dropWhile non_space ?d @ r"
      using tail_ok_has_space [OF okd d] by (rule dropWhile_append_nonempty)
    have "re_sub_redir (dropWhile non_space ?d @ r) =
            re_sub_redir (dropWhile non_space ?d) @ re_sub_redir r"
      using True d okd by (intro "2.IH"(1)) (auto simp: is_marker_def intro: tail_ok_dropWhile)
    then show ?thesis
      using True d by (simp add: 1 2 is_marker_def)
  next
    case False
    have "re_sub_redir (cs @ r) = re_sub_redir cs @ re_sub_redir r"
      using False "2.prems" by (intro "2.IH"(2)) (auto simp: is_marker_def dest: tail_ok_Cons)
    then show ?thesis
      using False by (simp add: is_marker_def)
  qed
qed

lemma last_dropWhile: "dropWhile P xs \<noteq> [] \<Longrightarrow> last (dropWhile P xs) = last xs"
  by (induction xs) (auto split: if_splits)

lemma space_last_dropWhile:
  assumes "xs \<noteq> []" "is_space (last xs)"
  shows "dropWhile non_space xs \<noteq> []"
proof
  assume "dropWhile non_space xs = []"
  then have "non_space (last xs)"
    using assms(1) by (simp add: dropWhile_eq_Nil_conv)
  with assms(2) show False by (simp add: non_space_def)
qed

lemma sub_keeps_last_space:
  "u \<noteq> [] \<Longrightarrow> is_space (last u) \<Longrightarrow>
     re_sub_redir u \<noteq> [] \<and> is_space (last (re_sub_redir u))"
proof (induction u rule: re_sub_redir.induct)
  case 1
  then show ?case by simp
next
  case (2 c cs)
  let ?d = "dropWhile is_space cs"
  show ?case
  proof (cases "is_marker c \<and> ?d \<noteq> []")
    case True
    then have cs: "cs \<noteq> []" by auto
    have ld: "last ?d = last (c # cs)"
      using True cs by (simp add: last_dropWhile)
    then have 1: "dropWhile non_space ?d \<noteq> []"
      using True "2.prems" by (intro space_last_dropWhile) simp_all
    then have "last (dropWhile non_space ?d) = last (c # cs)"
      using ld by (simp add: last_dropWhile)
    then have "re_sub_redir (dropWhile non_space ?d) \<noteq> [] \<and>
            is_space (last (re_sub_redir (dropWhile non_space ?d)))"
      using True 1 "2.prems" by (intro "2.IH"(1)) (auto simp: is_marker_def)
    then show ?thesis
      using True by (simp add: is_marker_def)
  next
    case False
    then have eq: "re_sub_redir (c # cs) = c # re_sub_redir cs"
      by (auto simp: is_marker_def)
    show ?thesis
    proof (cases "cs = []")
      case True
      then show ?thesis using "2.prems" by (simp only: eq) simp
    next
      case nonempty: False
      have "re_sub_redir cs \<noteq> [] \<and> is_space (last (re_sub_redir cs))"
        using False nonempty "2.prems" by (intro "2.IH"(2)) (auto simp: is_marker_def)
      then show ?thesis by (simp only: eq) simp
    qed
  qed
qed

lemma sub_all_space: "all_space post \<Longrightarrow> re_sub_redir post = post"
  using sub_skip [of post "[]"] by (auto simp: all_space_def dest: marker_not_space)

lemma split_ws_append_space:
  assumes "a = [] \<or> is_space (last a)"
  shows "split_ws (a @ r) = split_ws a @ split_ws r"
proof (cases "a = []")
  case True
  then show ?thesis by (simp add: split_ws_Nil)
next
  case False
  then obtain a0 c where a: "a = a0 @ [c]" and c: "is_space c"
    using assms by (metis append_butlast_last_id)
  have cr: "ws_start (c # r)" and c1: "ws_start [c]"
    using c by (simp_all add: ws_start_def)
  have "split_ws (a @ r) = split_ws (a0 @ (c # r))" by (simp add: a)
  also have "\<dots> = split_ws a0 @ split_ws (c # r)" by (rule split_ws_append [OF cr])
  also have "\<dots> = split_ws a0 @ split_ws r" using c by (simp add: split_ws_Cons)
  finally have 1: "split_ws (a @ r) = split_ws a0 @ split_ws r" .
  have "split_ws a = split_ws a0 @ split_ws [c]"
    unfolding a by (rule split_ws_append [OF c1])
  then have "split_ws a = split_ws a0" using c by (simp add: split_ws_Cons split_ws_Nil)
  with 1 show ?thesis by simp
qed

lemma split_ws_marker:
  assumes "is_marker m" "all_space post"
  shows "split_ws (m # post) = [[m]]"
proof -
  have "\<not> is_space m" using assms(1) by (rule marker_not_space)
  moreover have "takeWhile non_space post = []" "dropWhile non_space post = post"
    using all_space_ws_start [OF assms(2)] by (simp_all add: ws_start_takeWhile ws_start_dropWhile)
  ultimately show ?thesis
    by (simp add: split_ws_Cons non_space_def split_ws_all_space [OF assms(2)])
qed

lemma search_bare:
  assumes "is_marker m" "all_space post" "m \<notin> set pre"
  shows "re_search_redir m (pre @ m # post) = None"
proof -
  have "dropWhile is_space post = []"
    using assms(2) by (simp add: all_space_def dropWhile_eq_Nil_conv)
  moreover have "re_search_redir m post = None"
    using search_skip [of m post "[]"] all_space_no_marker [OF assms(2,1)] by simp
  ultimately show ?thesis
    using search_skip [OF assms(3)] by simp
qed

lemma parse_segment_bare_marker:
  assumes m: "is_marker m" and post: "all_space post" and fresh: "m \<notin> set pre"
    and ok: "tail_ok pre"
  shows "\<exists>st. parse_segment (pre @ m # post) bg = Some st
           \<and> args st = split_ws (re_sub_redir pre) @ [[m]]
           \<and> cmd st = hd (args st)
           \<and> (if m = CHR ''<'' then input_file st else output_file st) = None"
proof -
  have "dropWhile is_space post = []"
    using post by (simp add: all_space_def dropWhile_eq_Nil_conv)
  then have "re_sub_redir (m # post) = m # post"
    by (simp add: sub_all_space [OF post])
  then have sub: "re_sub_redir (pre @ m # post) = re_sub_redir pre @ m # post"
    by (simp add: sub_append [OF ok])
  have "re_sub_redir pre = [] \<or> is_space (last (re_sub_redir pre))"
    using ok sub_keeps_last_space [of pre] by (cases "pre = []") (auto simp: tail_ok_def)
  then have parts: "split_ws (re_sub_redir (pre @ m # post)) = split_ws (re_sub_redir pre) @ [[m]]"
    by (simp add: sub split_ws_append_space split_ws_marker [OF m post])
  have none: "re_search_redir m (pre @ m # post) = None"
    using m post fresh by (rule search_bare)
  show ?thesis
    using m none by (auto simp: parse_segment_def Let_def split_ws_strip parts is_marker_def)
qed

section \<open>What one call of the orchestrator does\<close>

lemmas os_prims = bind_def ret_def raise_def emit_def sys_exit_def os_write_def print_def
  os_pipe_def os_set_inheritable_def os_getpid_def os_fork_def os_close_def os_dup2_def
  os_waitpid_def os_wait_def

lemma run_single_bg:
  assumes "background c0" "fork_results w = rc # fr" "0 < rc"
  shows "run_cmds [c0] w =
    (Ret (), w\<lparr>trace := trace w @ [EGetpid, EFork rc, EWrite 2 ''Background process (single)\<newline>''],
               fork_results := fr\<rparr>)"
  using assms by (simp add: run_cmds_def parent_single_def os_prims)

lemma run_single_fg:
  assumes "\<not> background c0" "fork_results w = rc # fr" "0 < rc" "wait_results w = st # wr"
  shows "run_cmds [c0] w =
    (Ret (), w\<lparr>trace := trace w @ [EGetpid, EFork rc, EWait st]
                   @ (if snd st \<noteq> 0 then [EWrite 1 (child_exit_msg [] st)] else []),
               fork_results := fr, wait_results := wr\<rparr>)"
  using assms by (simp add: run_cmds_def parent_single_def os_prims)

lemma run_pipe_bg:
  assumes "background c1" "pipe_results w = (pr, pw) # ps"
    "fork_results w = rc # rc2 # fr" "0 < rc" "0 < rc2" "wait_results w = st # wr"
  shows "run_cmds [c0, c1] w =
    (Ret (), w\<lparr>trace := trace w @ [EPipe pr pw, ESetInheritable pr, ESetInheritable pw, EGetpid,
                     EFork rc, EClose pw, EWaitpid rc st]
                   @ (if snd st \<noteq> 0 then [EWrite 2 (child_exit_msg ''1 '' st)] else [])
                   @ [EFork rc2, EClose pr, EWrite 2 ''Background process (pipe)\<newline>''],
               fds := removeAll pr (removeAll pw (fds w @ [pr, pw])),
               pipe_results := ps, fork_results := fr, wait_results := wr\<rparr>)"
  using assms by (simp add: run_cmds_def parent_pipe_def os_prims)

lemma run_pipe_fg:
  assumes "\<not> background c1" "pipe_results w = (pr, pw) # ps"
    "fork_results w = rc # rc2 # fr" "0 < rc" "0 < rc2" "wait_results w = st # st2 # wr"
  shows "run_cmds [c0, c1] w =
    (Ret (), w\<lparr>trace := trace w @ [EPipe pr pw, ESetInheritable pr, ESetInheritable pw, EGetpid,
                     EFork rc, EClose pw, EWaitpid rc st]
                   @ (if snd st \<noteq> 0 then [EWrite 2 (child_exit_msg ''1 '' st)] else [])
                   @ [EFork rc2, EClose pr, EWaitpid rc2 st2]
                   @ (if snd st2 \<noteq> 0 then [EWrite 1 (child_exit_msg ''2 '' st2)] else []),
               fds := removeAll pr (removeAll pw (fds w @ [pr, pw])),
               pipe_results := ps, fork_results := fr, wait_results := wr\<rparr>)"
  using assms by (simp add: run_cmds_def parent_pipe_def os_prims)

lemma run_cmds_unsupported: "length cmds \<noteq> 1 \<Longrightarrow> length cmds \<noteq> 2 \<Longrightarrow> run_cmds cmds w = (Raise ValueError, w)"
  by (cases cmds rule: unpack_cmds.cases) (simp_all add: run_cmds_def raise_def)

lemma run_cmds_empty: "run_cmds [] w = (Raise ValueError, w)"
  by (simp add: run_cmds_def raise_def)

lemma bind_Ret:
  "bind m f w = (Ret u, w') \<Longrightarrow> \<exists>x w1. m w = (Ret x, w1) \<and> f x w1 = (Ret u, w')"
  by (auto simp: bind_def split: prod.splits res.splits)

lemma execute_no_ret: "execute exe c w \<noteq> (Ret u, w')"
  by (auto simp: execute_def os_execve_def os_prims split: option.splits prod.splits res.splits exn.splits)

lemma child1_no_ret: "child1 c0 c1 pp w \<noteq> (Ret u, w')"
  unfolding child1_def by (auto dest!: bind_Ret simp: execute_no_ret)

lemma child2_no_ret: "child2 c1 pr w \<noteq> (Ret u, w')"
  unfolding child2_def by (auto dest!: bind_Ret simp: execute_no_ret)

lemma run_pipe_returns:
  assumes "run_cmds [c0, c1] w = (Ret u, w')"
  shows "\<exists>pr pw. filter is_pipe (new_events w w') = [EPipe pr pw]
           \<and> EClose pr \<in> set (new_events w w') \<and> EClose pw \<in> set (new_events w w')
           \<and> pr \<notin> set (fds w') \<and> pw \<notin> set (fds w')"
proof -
  from assms obtain p ps where p: "pipe_results w = p # ps"
    by (cases "pipe_results w") (auto simp: run_cmds_def Let_def os_prims)
  from assms p obtain rc fr where f: "fork_results w = rc # fr"
    by (cases "fork_results w") (auto simp: run_cmds_def Let_def os_prims)
  have rc: "0 < rc"
    using assms p f child1_no_ret
    by (cases "rc < 0"; cases "rc = 0") (auto simp: run_cmds_def Let_def os_prims)
  from assms p f rc obtain st wr where s: "wait_results w = st # wr"
    by (cases "wait_results w") (auto simp: run_cmds_def Let_def parent_pipe_def os_prims split: prod.splits)
  from assms p f rc s obtain rc2 fr2 where f2: "fr = rc2 # fr2"
    by (cases fr) (auto simp: run_cmds_def Let_def parent_pipe_def os_prims split: prod.splits if_splits)
  have rc2: "0 < rc2"
    using assms p f rc s f2 child2_no_ret
    by (cases "rc2 < 0"; cases "rc2 = 0")
       (auto simp: run_cmds_def Let_def parent_pipe_def os_prims split: prod.splits if_splits)
  have w: "background c1 \<or> wr \<noteq> []"
    using assms p f rc s f2 rc2
    by (cases wr) (auto simp: run_cmds_def Let_def parent_pipe_def os_prims split: prod.splits if_splits)
  obtain pr pw where pp: "p = (pr, pw)" by (cases p)
  show ?thesis
  proof (cases "background c1")
    case True
    have "run_cmds [c0, c1] w = (Ret (), w\<lparr>trace := trace w @ [EPipe pr pw, ESetInheritable pr, ESetInheritable pw, EGetpid,
                     EFork rc, EClose pw, EWaitpid rc st]
                   @ (if snd st \<noteq> 0 then [EWrite 2 (child_exit_msg ''1 '' st)] else [])
                   @ [EFork rc2, EClose pr, EWrite 2 ''Background process (pipe)\<newline>''],
               fds := removeAll pr (removeAll pw (fds w @ [pr, pw])),
               pipe_results := ps, fork_results := fr2, wait_results := wr\<rparr>)"
      using True p pp f f2 rc rc2 s by (intro run_pipe_bg) simp_all
    with assms show ?thesis
      by (intro exI [of _ pr] exI [of _ pw]) (auto simp: new_events_def)
  next
    case False
    then obtain st2 wr2 where wr: "wr = st2 # wr2" using w by (cases wr) auto
    have "run_cmds [c0, c1] w = (Ret (), w\<lparr>trace := trace w @ [EPipe pr pw, ESetInheritable pr, ESetInheritable pw, EGetpid,
                     EFork rc, EClose pw, EWaitpid rc st]
                   @ (if snd st \<noteq> 0 then [EWrite 2 (child_exit_msg ''1 '' st)] else [])
                   @ [EFork rc2, EClose pr, EWaitpid rc2 st2]
                   @ (if snd st2 \<noteq> 0 then [EWrite 1 (child_exit_msg ''2 '' st2)] else []),
               fds := removeAll pr (removeAll pw (fds w @ [pr, pw])),
               pipe_results := ps, fork_results := fr2, wait_results := wr2\<rparr>)"
      using False p pp f f2 rc rc2 s wr by (intro run_pipe_fg) simp_all
    with assms show ?thesis
      by (intro exI [of _ pr] exI [of _ pw]) (auto simp: new_events_def)
  qed
qed

section \<open>What the resolver computes\<close>

lemma split_on_nonempty: "split_on d s \<noteq> []"
  by (induction s) (auto split: list.splits)

lemma split_on_chars: "e \<in> set (split_on d s) \<Longrightarrow> set e \<subseteq> set s"
proof (induction s arbitrary: e)
  case Nil
  then show ?case by simp
next
  case (Cons c cs)
  show ?case
  proof (cases "c = d")
    case True
    then show ?thesis using Cons by auto
  next
    case False
    obtain x xs where x: "split_on d cs = x # xs"
      using split_on_nonempty [of d cs] by (cases "split_on d cs") auto
    then have "e = c # x \<or> e \<in> set xs" using Cons.prems False by simp
    moreover have "set x \<subseteq> set cs" "\<And>y. y \<in> set xs \<Longrightarrow> set y \<subseteq> set cs"
      using Cons.IH x by simp_all
    ultimately show ?thesis by auto
  qed
qed

lemma path_join_no_nul: "\<not> has_nul a \<Longrightarrow> \<not> has_nul b \<Longrightarrow> \<not> has_nul (path_join a b)"
  by (auto simp: path_join_def has_nul_def)

lemma path_join_nul: "has_nul b \<Longrightarrow> has_nul (path_join a b)"
  by (auto simp: path_join_def has_nul_def)

lemma search_paths_find:
  assumes "\<not> has_nul name" and "\<forall>e \<in> set paths. \<not> has_nul e"
  shows "search_paths paths name w =
           (Ret (find (executable w) (map (\<lambda>path. path_join path name) paths)), w)"
  using assms(2)
  by (induction paths) (simp_all add: Let_def os_access_def path_join_no_nul [OF _ assms(1)])

text \<open>
  With \<^verbatim>\<open>PATH\<close> set and no NUL character in the name or in \<^verbatim>\<open>PATH\<close>, the resolver
  returns the name itself if it is absolute and executable, and otherwise the first
  executable candidate \<^verbatim>\<open>os.path.join(entry, name)\<close>, in the order of the entries.
\<close>

lemma find_executable_first_candidate:
  assumes "env_PATH w = Some p" and "\<not> has_nul (cmd c)" and "\<not> has_nul p"
  shows "find_executable c w =
      (Ret (if isabs (cmd c) \<and> executable w (cmd c) then Some (cmd c)
            else find (executable w)
                   (map (\<lambda>entry. path_join entry (cmd c)) (split_on (CHR '':'') p))), w)"
proof -
  have "\<forall>e \<in> set (split_on (CHR '':'') p). \<not> has_nul e"
    using assms(3) split_on_chars [of _ "CHR '':''" p] by (auto simp: has_nul_def)
  then have "search_paths (split_on (CHR '':'') p) (cmd c) w =
      (Ret (find (executable w)
              (map (\<lambda>entry. path_join entry (cmd c)) (split_on (CHR '':'') p))), w)"
    by (rule search_paths_find [OF assms(2)])
  then show ?thesis
    using assms(1,2) by (simp add: find_executable_def Let_def bind_def ret_def os_access_def)
qed

text \<open>A name with a NUL character in it makes the first \<^verbatim>\<open>os.access\<close> raise.\<close>

lemma find_executable_nul:
  assumes "has_nul (cmd c)" and "isabs (cmd c) \<or> env_PATH w \<noteq> None"
  shows "find_executable c w = (Raise ValueError, w)"
proof (cases "isabs (cmd c)")
  case True
  then show ?thesis
    using assms(1) by (simp add: find_executable_def Let_def bind_def os_access_def)
next
  case False
  then obtain p where p: "env_PATH w = Some p" using assms(2) by auto
  obtain e es where "split_on (CHR '':'') p = e # es"
    using split_on_nonempty [of "CHR '':''" p] by (cases "split_on (CHR '':'') p") auto
  then show ?thesis
    using False p path_join_nul [OF assms(1)]
    by (simp add: find_executable_def Let_def bind_def ret_def os_access_def)
qed

section \<open>Evaluating the parser on a given line\<close>

lemmas parse_eval = parser_def parse_segment_def strip_def is_space_def non_space_def
  endswith_amp_def split_ws_Nil split_ws_Cons Let_def

lemma parser_loop_list_state:
  "parser_loop segs commands w = (PList l, w') \<Longrightarrow> w' = w"
  by (induction segs arbitrary: commands) (auto simp: Let_def split: if_splits)

section \<open>The claims\<close>

subsection \<open>C1: pipelines of more than two stages\<close>

text \<open>
  Claim C1, as it is stated, says that on a pipeline of more than two stages \<open>run_cmds\<close>
  does not fail and behaves as on its first two stages. It does not: the line
  \<^verbatim>\<open>a | b | c\<close> parses to three stages, on which \<open>run_cmds\<close> raises \<^verbatim>\<open>ValueError\<close>,
  while on the first two of them it returns.
\<close>

theorem run_cmds_first_two_stages_counterexample:
  "parser ''a | b | c'' os0 =
     (PList [simple_stage ''a'' False, simple_stage ''b'' False, simple_stage ''c'' False], os0)
   \<and> fst (run_cmds [simple_stage ''a'' False, simple_stage ''b'' False, simple_stage ''c'' False] os0)
       = Raise ValueError
   \<and> fst (run_cmds (take 2 [simple_stage ''a'' False, simple_stage ''b'' False,
                             simple_stage ''c'' False]) os0) = Ret ()"
proof -
  have 1: "parser ''a | b | c'' os0 =
     (PList [simple_stage ''a'' False, simple_stage ''b'' False, simple_stage ''c'' False], os0)"
    by (simp add: parse_eval simple_stage_def)
  have 2: "fst (run_cmds [simple_stage ''a'' False, simple_stage ''b'' False,
                          simple_stage ''c'' False] os0) = Raise ValueError"
    by (simp add: run_cmds_def raise_def)
  have 3: "fst (run_cmds [simple_stage ''a'' False, simple_stage ''b'' False] os0) = Ret ()"
    by (subst run_pipe_fg [where pr = 3 and pw = 4 and rc = 101 and ?rc2.0 = 102])
       (simp_all add: os0_def simple_stage_def)
  show ?thesis using 1 2 3 by simp
qed

text \<open>
  Claim C1, amended: for every pipeline of more than two stages, \<open>run_cmds\<close> executes
  none of the stages. Unpacking the list into \<^verbatim>\<open>cmd_0, cmd_1\<close> raises \<^verbatim>\<open>ValueError\<close> at
  the first statement, before a pipe or a process is created and before anything is
  written: the state of the system is the one the call started in.
\<close>

theorem run_cmds_more_than_two_stages:
  assumes "2 < length cmds"
  shows "run_cmds cmds w = (Raise ValueError, w)"
  using assms by (intro run_cmds_unsupported) simp_all

theorem run_cmds_more_than_two_stages_witness:
  "2 < length [simple_stage ''a'' False, simple_stage ''b'' False, simple_stage ''c'' False]
   \<and> run_cmds [simple_stage ''a'' False, simple_stage ''b'' False, simple_stage ''c'' False] os0
       = (Raise ValueError, os0)"
proof -
  have h: "2 < length [simple_stage ''a'' False, simple_stage ''b'' False, simple_stage ''c'' False]"
    by simp
  show ?thesis
    using run_cmds_more_than_two_stages [OF h, of os0] h by (simp only: simp_thms)
qed

subsection \<open>C2: the empty pipeline\<close>

text \<open>
  Claim C2, as it is stated, says that \<open>run_cmds\<close> returns on the empty list without
  failing. It creates no process and writes nothing, but it does not return: the
  unpacking raises \<^verbatim>\<open>ValueError\<close>.
\<close>

theorem run_cmds_empty_counterexample:
  "fst (run_cmds [] os0) = Raise ValueError \<and> new_events os0 (snd (run_cmds [] os0)) = []"
  by (simp add: run_cmds_def raise_def new_events_def)

text \<open>
  Claim C2, amended: the empty pipeline is rejected by the driver, not by \<open>run_cmds\<close>.
  When the parser returns the empty list for a line (one that is not empty and does
  not start with \<^verbatim>\<open>exit\<close>), the driver prints \<^verbatim>\<open>no commands\<close> and does nothing else:
  \<open>run_cmds\<close> is not called, no process is created. \<open>run_cmds\<close> itself, applied to
  the empty list, creates no process and writes nothing, and ends by raising
  \<^verbatim>\<open>ValueError\<close> with the state unchanged.
\<close>

theorem empty_pipeline_is_rejected_by_the_driver:
  "run_cmds [] w = (Raise ValueError, w)
   \<and> (fst (parser user_in w) = PList [] \<longrightarrow> \<not> startswith user_in ''exit'' \<longrightarrow> user_in \<noteq> [] \<longrightarrow>
        shell_step user_in w = (Ret (), w\<lparr>trace := trace w @ [EPrint ''no commands'']\<rparr>))"
proof -
  have 1: "run_cmds [] w = (Raise ValueError, w)"
    by (rule run_cmds_empty)
  have 2: "shell_step user_in w = (Ret (), w\<lparr>trace := trace w @ [EPrint ''no commands'']\<rparr>)"
    if a: "fst (parser user_in w) = PList []" "\<not> startswith user_in ''exit''" "user_in \<noteq> []"
  proof -
    obtain w' where p: "parser user_in w = (PList [], w')"
      using a(1) by (cases "parser user_in w") simp
    then have "w' = w"
      unfolding parser_def by (rule parser_loop_list_state)
    with p a show ?thesis
      by (simp add: shell_step_def print_def emit_def)
  qed
  show ?thesis using 1 2 by blast
qed

theorem empty_pipeline_witness:
  "fst (parser ''|'' os0) = PList [] \<and> \<not> startswith ''|'' ''exit'' \<and> ''|'' \<noteq> []
   \<and> run_cmds [] os0 = (Raise ValueError, os0)
   \<and> shell_step ''|'' os0 = (Ret (), os0\<lparr>trace := [EPrint ''no commands'']\<rparr>)"
proof -
  have h1: "fst (parser ''|'' os0) = PList []" by (simp add: parse_eval)
  have h2: "\<not> startswith ''|'' ''exit''" by (simp add: startswith_def)
  have h3: "''|'' \<noteq> []" by simp
  have t: "trace os0 = []" by (simp add: os0_def)
  show ?thesis
    using empty_pipeline_is_rejected_by_the_driver [of os0 "''|''"] h1 h2 h3
    by (simp only: t append_Nil simp_thms)
qed

subsection \<open>C3: a background marker before a pipe\<close>

text \<open>
  Claim C3: when a segment other than the last one ends, once trimmed, with the
  background marker, \<open>parser\<close> returns \<^verbatim>\<open>False\<close> and the only thing it has done is to
  write the diagnostic on descriptor 2. No list of stages is returned, not even a
  partial one, and no process is created: the state differs from the initial one by
  that one event, and the driver, given \<^verbatim>\<open>False\<close>, prints \<^verbatim>\<open>no commands\<close> and does
  not call \<open>run_cmds\<close>.
\<close>

theorem background_marker_before_pipe_is_syntax_error:
  assumes "Suc i < length (split_on (CHR ''|'') line)"
      and "endswith_amp (strip (split_on (CHR ''|'') line ! i))"
  shows "parser line w = (PFalse, w\<lparr>trace := trace w @ [EWrite 2 syntax_error_msg]\<rparr>)
       \<and> (\<not> startswith line ''exit'' \<longrightarrow>
            shell_step line w =
              (Ret (), w\<lparr>trace := trace w @ [EWrite 2 syntax_error_msg, EPrint ''no commands'']\<rparr>))"
proof -
  have p: "parser line w = (PFalse, w\<lparr>trace := trace w @ [EWrite 2 syntax_error_msg]\<rparr>)"
    unfolding parser_def using parser_loop_syntax_error [OF assms] by (simp add: emit_def)
  have "line \<noteq> []" using assms(1) by auto
  then show ?thesis
    using p by (simp add: shell_step_def print_def emit_def)
qed

theorem background_marker_before_pipe_witness:
  "Suc 0 < length (split_on (CHR ''|'') ''cmd1 & | cmd2'')
   \<and> endswith_amp (strip (split_on (CHR ''|'') ''cmd1 & | cmd2'' ! 0))
   \<and> \<not> startswith ''cmd1 & | cmd2'' ''exit''
   \<and> parser ''cmd1 & | cmd2'' os0 = (PFalse, os0\<lparr>trace := [EWrite 2 syntax_error_msg]\<rparr>)
   \<and> shell_step ''cmd1 & | cmd2'' os0 =
        (Ret (), os0\<lparr>trace := [EWrite 2 syntax_error_msg, EPrint ''no commands'']\<rparr>)"
proof -
  have h1: "Suc 0 < length (split_on (CHR ''|'') ''cmd1 & | cmd2'')" by simp
  have h2: "endswith_amp (strip (split_on (CHR ''|'') ''cmd1 & | cmd2'' ! 0))"
    by (simp add: parse_eval)
  have h3: "\<not> startswith ''cmd1 & | cmd2'' ''exit''" by (simp add: startswith_def)
  have t: "trace os0 = []" by (simp add: os0_def)
  show ?thesis
    using background_marker_before_pipe_is_syntax_error [OF h1 h2, of os0] h1 h2 h3
    by (simp only: t append_Nil simp_thms)
qed

subsection \<open>C4: redirections in either order\<close>

text \<open>
  On the two lines of the claim the parser gives the stage the claim names, and on
  every segment of plain words and well-formed clauses the arguments are the words
  and nothing else (\<open>parse_segment_render\<close> above).
\<close>

lemma redirection_examples_parse:
  "parser ''cat < in.txt > out.txt'' w =
     (PList [\<lparr>cmd = ''cat'', args = [''cat''], input_file = Some ''in.txt'',
              output_file = Some ''out.txt'', background = False\<rparr>], w)
   \<and> parser ''cat > out.txt < in.txt'' w =
     (PList [\<lparr>cmd = ''cat'', args = [''cat''], input_file = Some ''in.txt'',
              output_file = Some ''out.txt'', background = False\<rparr>], w)"
  by (simp add: parse_eval)

text \<open>
  Claim C4 says that the extraction of the redirections does not depend on the order
  of the clauses and that the path of a redirection never appears among the
  arguments; the comment on line 58 says the same of the code (\<^verbatim>\<open>Remove redirection
  parts from the command\<close>). The code misses it on \<^verbatim>\<open>cat > < in\<close>. The two searches
  take \<^verbatim>\<open><\<close> as the output path and \<^verbatim>\<open>in\<close> as the input path; the removal, which
  deletes non-overlapping matches from the left, deletes only \<^verbatim>\<open>> <\<close> and leaves
  \<^verbatim>\<open>in\<close>. So \<^verbatim>\<open>in\<close>, the input path, is also the second argument.
\<close>

theorem redirection_path_left_in_args:
  "re_search_redir (CHR ''<'') ''cat > < in'' = Some ''in''
   \<and> re_search_redir (CHR ''>'') ''cat > < in'' = Some ''<''
   \<and> re_sub_redir ''cat > < in'' = ''cat  in''
   \<and> parser ''cat > < in'' os0 =
     (PList [\<lparr>cmd = ''cat'', args = [''cat'', ''in''], input_file = Some ''in'',
              output_file = Some ''<'', background = False\<rparr>], os0)"
  by (simp add: parse_eval)

subsection \<open>C5: resolving a command name\<close>

text \<open>
  Claim C5 says that the resolver returns the name itself if it is absolute and
  executable, otherwise \<^verbatim>\<open>entry/name\<close> for the first entry of the search path for
  which that file is executable, and nothing when there is none; the docstring of
  \<^verbatim>\<open>find_executable\<close> promises the same kind of result (\<^verbatim>\<open>Full path to executable or
  None if not found\<close>). The code misses it on an empty entry: with \<^verbatim>\<open>PATH=:/bin\<close> and an
  executable file \<^verbatim>\<open>prog\<close> in the working directory, \<^verbatim>\<open>os.path.join('', 'prog')\<close> is the
  bare name \<^verbatim>\<open>prog\<close>, which the code tests and returns: a relative name, where neither
  \<^verbatim>\<open>/prog\<close> nor \<^verbatim>\<open>/bin/prog\<close> is executable and the resolver of the claim finds nothing.
\<close>

theorem find_executable_returns_relative_name:
  "env_PATH os_cwd = Some '':/bin''
   \<and> split_on (CHR '':'') '':/bin'' = [[], ''/bin'']
   \<and> path_join [] ''prog'' = ''prog''
   \<and> find_executable (simple_stage ''prog'' False) os_cwd = (Ret (Some ''prog''), os_cwd)
   \<and> \<not> isabs ''prog''
   \<and> resolve_spec (executable os_cwd) '':/bin'' ''prog'' = None"
  by (simp add: os_cwd_def os0_def find_executable_def simple_stage_def isabs_def startswith_def
        path_join_def resolve_spec_def Let_def bind_def ret_def os_access_def has_nul_def)

subsection \<open>C6: what a background pipeline waits for\<close>

text \<open>
  Claim C6, as it is stated, says that a background pipeline waits for none of its
  processes. With two stages the orchestrator does wait for the first one:
  \<^verbatim>\<open>os.waitpid(rc, 0)\<close> on line 200 comes before the test of the background flag.
\<close>

theorem background_pipe_waits_counterexample:
  "background (last [simple_stage ''ls'' False, simple_stage ''wc'' True])
   \<and> fst (run_cmds [simple_stage ''ls'' False, simple_stage ''wc'' True] os0) = Ret ()
   \<and> filter is_wait
        (new_events os0 (snd (run_cmds [simple_stage ''ls'' False, simple_stage ''wc'' True] os0)))
       = [EWaitpid 101 (101, 256)]"
  by (subst (1 2) run_pipe_bg [where pr = 3 and pw = 4 and rc = 101 and ?rc2.0 = 102
        and st = "(101, 256)"])
     (simp_all add: os0_def simple_stage_def new_events_def)

text \<open>
  Claim C6, amended: for a background pipeline the orchestrator never waits for the
  last process it created. With a single stage it waits for nothing: it creates the
  process, writes the notice and returns. With two stages it does block once, on
  stage 1, before stage 2 is created (and reports a non-zero status of stage 1); after
  creating stage 2 it closes the read end of the pipe, writes the notice and returns.
\<close>

theorem background_waits_for_stage_1_only:
  "(background c \<longrightarrow> fork_results w = rc # fr \<longrightarrow> 0 < rc \<longrightarrow>
      fst (run_cmds [c] w) = Ret ()
      \<and> new_events w (snd (run_cmds [c] w)) =
          [EGetpid, EFork rc, EWrite 2 ''Background process (single)\<newline>''])
   \<and> (background c1 \<longrightarrow> pipe_results w = (pr, pw) # ps \<longrightarrow> fork_results w = rc1 # rc2 # fr2 \<longrightarrow>
      0 < rc1 \<longrightarrow> 0 < rc2 \<longrightarrow> wait_results w = st # wr \<longrightarrow>
      fst (run_cmds [c0, c1] w) = Ret ()
      \<and> new_events w (snd (run_cmds [c0, c1] w)) =
          [EPipe pr pw, ESetInheritable pr, ESetInheritable pw, EGetpid, EFork rc1, EClose pw,
           EWaitpid rc1 st]
          @ (if snd st \<noteq> 0 then [EWrite 2 (child_exit_msg ''1 '' st)] else [])
          @ [EFork rc2, EClose pr, EWrite 2 ''Background process (pipe)\<newline>''])"
  by (simp add: run_single_bg run_pipe_bg new_events_def)

theorem background_waits_for_stage_1_only_witness:
  "background (simple_stage ''sleep'' True) \<and> fork_results os0 = 101 # [102] \<and> (0::int) < 101
   \<and> pipe_results os0 = (3, 4) # [] \<and> fork_results os0 = 101 # 102 # [] \<and> (0::int) < 102
   \<and> wait_results os0 = (101, 256) # [(102, 0)]
   \<and> new_events os0 (snd (run_cmds [simple_stage ''sleep'' True] os0)) =
        [EGetpid, EFork 101, EWrite 2 ''Background process (single)\<newline>'']
   \<and> new_events os0 (snd (run_cmds [simple_stage ''ls'' False, simple_stage ''sleep'' True] os0)) =
        [EPipe 3 4, ESetInheritable 3, ESetInheritable 4, EGetpid, EFork 101, EClose 4,
         EWaitpid 101 (101, 256),
         EWrite 2 ''Parent: Child 1 101 terminated with exit code 256\<newline>'',
         EFork 102, EClose 3, EWrite 2 ''Background process (pipe)\<newline>'']"
proof -
  have h: "background (simple_stage ''sleep'' True)" "fork_results os0 = 101 # [102]"
    "(0::int) < 101" "pipe_results os0 = (3, 4) # []" "fork_results os0 = 101 # 102 # []"
    "(0::int) < 102" "wait_results os0 = (101, 256) # [(102, 0)]"
    by (simp_all add: simple_stage_def os0_def)
  have m: "child_exit_msg ''1 '' (101, 256) = ''Parent: Child 1 101 terminated with exit code 256\<newline>''"
    by (simp add: child_exit_msg_def str_int_def str_nat.simps digit_char_def)
  show ?thesis
    using background_waits_for_stage_1_only [where c = "simple_stage ''sleep'' True"
        and w = os0 and rc = 101 and fr = "[102]" and ?c1.0 = "simple_stage ''sleep'' True"
        and pr = 3 and pw = 4 and ps = "[]" and ?rc1.0 = 101 and ?rc2.0 = 102 and ?fr2.0 = "[]"
        and st = "(101, 256)" and wr = "[(102, 0)]" and ?c0.0 = "simple_stage ''ls'' False"] h
    by (simp add: m)
qed

subsection \<open>C7: the background notice\<close>

text \<open>
  Claim C7, as it is stated, says of every pipeline whose last stage has the background
  flag set that the orchestrator writes the notice and returns. With two stages it
  first waits for stage 1 (line 200), and it gets no further when that wait gives no
  status: here the call raises, and a stage 1 that never ends (one that fills the pipe
  which nothing reads yet, for instance) keeps the orchestrator blocked at the same
  place. Stage 2 is not created, no notice is written and \<open>run_cmds\<close> does not return.
\<close>

theorem background_pipe_without_stage_1_status_counterexample:
  "background (last [simple_stage ''ls'' False, simple_stage ''wc'' True])
   \<and> fst (run_cmds [simple_stage ''ls'' False, simple_stage ''wc'' True] os_stuck)
       = Raise ChildProcessError
   \<and> new_events os_stuck
        (snd (run_cmds [simple_stage ''ls'' False, simple_stage ''wc'' True] os_stuck))
       = [EPipe 3 4, ESetInheritable 3, ESetInheritable 4, EGetpid, EFork 101, EClose 4]"
  by (simp add: run_cmds_def parent_pipe_def os_prims os_stuck_def os0_def simple_stage_def
        new_events_def)

text \<open>
  Claim C7, amended: in the parent of the processes it creates (each fork returns the
  child's process id), the orchestrator handles a pipeline whose last stage has the
  background flag set as follows. With a single stage it creates the process, writes
  the notice \<^verbatim>\<open>Background process (single)\<close> on descriptor 2 and returns; it waits for
  nothing. With two stages, once the wait for stage 1 has given a status, it creates
  stage 2, closes the read end of the pipe, writes the notice \<^verbatim>\<open>Background process
  (pipe)\<close> on descriptor 2 and returns: the creation of stage 2 is followed by these two
  events only, and the one wait of the call is the wait for stage 1. The theorem gives
  the whole state in which the call returns, so also the answers of the system it has
  used: one fork and no wait for a single stage, two forks and one wait for two stages.
\<close>

theorem background_notice_after_creating_last_process:
  "(background c \<longrightarrow> fork_results w = rc # fr \<longrightarrow> 0 < rc \<longrightarrow>
      run_cmds [c] w =
        (Ret (), w\<lparr>trace := trace w @ [EGetpid, EFork rc,
                                        EWrite 2 ''Background process (single)\<newline>''],
                   fork_results := fr\<rparr>))
   \<and> (background c1 \<longrightarrow> pipe_results w = (pr, pw) # ps \<longrightarrow> fork_results w = rc1 # rc2 # fr2 \<longrightarrow>
      0 < rc1 \<longrightarrow> 0 < rc2 \<longrightarrow> wait_results w = st # wr \<longrightarrow>
      run_cmds [c0, c1] w =
        (Ret (), w\<lparr>trace := trace w
                      @ [EPipe pr pw, ESetInheritable pr, ESetInheritable pw, EGetpid,
                         EFork rc1, EClose pw, EWaitpid rc1 st]
                      @ (if snd st \<noteq> 0 then [EWrite 2 (child_exit_msg ''1 '' st)] else [])
                      @ [EFork rc2, EClose pr, EWrite 2 ''Background process (pipe)\<newline>''],
                   fds := removeAll pr (removeAll pw (fds w @ [pr, pw])),
                   pipe_results := ps, fork_results := fr2, wait_results := wr\<rparr>))"
  by (simp add: run_single_bg run_pipe_bg)

theorem background_notice_after_creating_last_process_witness:
  "background (simple_stage ''sleep'' True) \<and> fork_results os0 = 101 # [102] \<and> (0::int) < 101
   \<and> pipe_results os0 = (3, 4) # [] \<and> fork_results os0 = 101 # 102 # [] \<and> (0::int) < 102
   \<and> wait_results os0 = (101, 256) # [(102, 0)]
   \<and> run_cmds [simple_stage ''sleep'' True] os0 =
        (Ret (), os0\<lparr>trace := [EGetpid, EFork 101,
                                 EWrite 2 ''Background process (single)\<newline>''],
                     fork_results := [102]\<rparr>)
   \<and> run_cmds [simple_stage ''ls'' False, simple_stage ''sleep'' True] os0 =
        (Ret (), os0\<lparr>trace := [EPipe 3 4, ESetInheritable 3, ESetInheritable 4, EGetpid,
                                 EFork 101, EClose 4, EWaitpid 101 (101, 256),
                                 EWrite 2 ''Parent: Child 1 101 terminated with exit code 256\<newline>'',
                                 EFork 102, EClose 3,
                                 EWrite 2 ''Background process (pipe)\<newline>''],
                     fds := [0, 1, 2], pipe_results := [], fork_results := [],
                     wait_results := [(102, 0)]\<rparr>)"
proof -
  have h: "background (simple_stage ''sleep'' True)" "fork_results os0 = 101 # [102]"
    "(0::int) < 101" "pipe_results os0 = (3, 4) # []" "fork_results os0 = 101 # 102 # []"
    "(0::int) < 102" "wait_results os0 = (101, 256) # [(102, 0)]"
    by (simp_all add: simple_stage_def os0_def)
  have m: "child_exit_msg ''1 '' (101, 256) = ''Parent: Child 1 101 terminated with exit code 256\<newline>''"
    by (simp add: child_exit_msg_def str_int_def str_nat.simps digit_char_def)
  have t: "trace os0 = []" "fds os0 = [0, 1, 2]" by (simp_all add: os0_def)
  show ?thesis
    using background_notice_after_creating_last_process [where c = "simple_stage ''sleep'' True"
        and w = os0 and rc = 101 and fr = "[102]" and ?c1.0 = "simple_stage ''sleep'' True"
        and pr = 3 and pw = 4 and ps = "[]" and ?rc1.0 = 101 and ?rc2.0 = 102 and ?fr2.0 = "[]"
        and st = "(101, 256)" and wr = "[(102, 0)]" and ?c0.0 = "simple_stage ''ls'' False"] h
    by (simp add: m t)
qed

subsection \<open>C8: reporting a non-zero exit status\<close>

text \<open>
  Claim C8: after each wait, the orchestrator writes a message with the process id and
  the status that the wait returned exactly when that status is not zero: on
  descriptor 2 for stage 1 of a pipe of two stages, on descriptor 1 for stage 2 of
  that pipe (which is waited for only in the foreground) and for a single stage.
\<close>

theorem nonzero_exit_is_reported:
  "(\<not> background c \<longrightarrow> fork_results w = rc # fr \<longrightarrow> 0 < rc \<longrightarrow> wait_results w = s # sr \<longrightarrow>
      new_events w (snd (run_cmds [c] w)) =
        [EGetpid, EFork rc, EWait s]
        @ (if snd s \<noteq> 0
           then [EWrite 1 (''Parent: Child '' @ str_int (fst s) @ '' terminated with exit code ''
                            @ str_int (snd s) @ ''\<newline>'')]
           else []))
   \<and> (pipe_results w = (pr, pw) # ps \<longrightarrow> fork_results w = rc1 # rc2 # fr2 \<longrightarrow>
      0 < rc1 \<longrightarrow> 0 < rc2 \<longrightarrow> wait_results w = st1 # wr \<longrightarrow>
      (background c1 \<or> wr = st2 # wr2) \<longrightarrow>
      new_events w (snd (run_cmds [c0, c1] w)) =
        [EPipe pr pw, ESetInheritable pr, ESetInheritable pw, EGetpid, EFork rc1, EClose pw,
         EWaitpid rc1 st1]
        @ (if snd st1 \<noteq> 0
           then [EWrite 2 (''Parent: Child 1 '' @ str_int (fst st1) @ '' terminated with exit code ''
                            @ str_int (snd st1) @ ''\<newline>'')]
           else [])
        @ [EFork rc2, EClose pr]
        @ (if background c1 then [EWrite 2 ''Background process (pipe)\<newline>'']
           else [EWaitpid rc2 st2]
                @ (if snd st2 \<noteq> 0
                   then [EWrite 1 (''Parent: Child 2 '' @ str_int (fst st2)
                                    @ '' terminated with exit code '' @ str_int (snd st2)
                                    @ ''\<newline>'')]
                   else [])))"
proof -
  have single: "new_events w (snd (run_cmds [c] w)) =
        [EGetpid, EFork rc, EWait s]
        @ (if snd s \<noteq> 0
           then [EWrite 1 (''Parent: Child '' @ str_int (fst s) @ '' terminated with exit code ''
                            @ str_int (snd s) @ ''\<newline>'')]
           else [])"
    if "\<not> background c" "fork_results w = rc # fr" "0 < rc" "wait_results w = s # sr"
    using that by (simp add: run_single_fg new_events_def child_exit_msg_def)
  have pipe: "new_events w (snd (run_cmds [c0, c1] w)) =
        [EPipe pr pw, ESetInheritable pr, ESetInheritable pw, EGetpid, EFork rc1, EClose pw,
         EWaitpid rc1 st1]
        @ (if snd st1 \<noteq> 0
           then [EWrite 2 (''Parent: Child 1 '' @ str_int (fst st1) @ '' terminated with exit code ''
                            @ str_int (snd st1) @ ''\<newline>'')]
           else [])
        @ [EFork rc2, EClose pr]
        @ (if background c1 then [EWrite 2 ''Background process (pipe)\<newline>'']
           else [EWaitpid rc2 st2]
                @ (if snd st2 \<noteq> 0
                   then [EWrite 1 (''Parent: Child 2 '' @ str_int (fst st2)
                                    @ '' terminated with exit code '' @ str_int (snd st2)
                                    @ ''\<newline>'')]
                   else []))"
    if a: "pipe_results w = (pr, pw) # ps" "fork_results w = rc1 # rc2 # fr2" "0 < rc1" "0 < rc2"
      "wait_results w = st1 # wr" and b: "background c1 \<or> wr = st2 # wr2"
  proof (cases "background c1")
    case True
    show ?thesis
      using True a by (simp add: run_pipe_bg new_events_def child_exit_msg_def)
  next
    case False
    then have "wait_results w = st1 # st2 # wr2" using a b by simp
    then show ?thesis
      using False a by (simp add: run_pipe_fg new_events_def child_exit_msg_def)
  qed
  show ?thesis using single pipe by blast
qed

theorem nonzero_exit_is_reported_witness:
  "\<not> background (simple_stage ''false'' False) \<and> fork_results os0 = 101 # [102] \<and> (0::int) < 101
   \<and> wait_results os0 = (101, 256) # [(102, 0)]
   \<and> pipe_results os0 = (3, 4) # [] \<and> fork_results os0 = 101 # 102 # [] \<and> (0::int) < 102
   \<and> (background (simple_stage ''true'' False) \<or> [(102 :: int, 0 :: int)] = (102, 0) # [])
   \<and> new_events os0 (snd (run_cmds [simple_stage ''false'' False] os0)) =
        [EGetpid, EFork 101, EWait (101, 256),
         EWrite 1 ''Parent: Child 101 terminated with exit code 256\<newline>'']
   \<and> new_events os0 (snd (run_cmds [simple_stage ''false'' False, simple_stage ''true'' False] os0)) =
        [EPipe 3 4, ESetInheritable 3, ESetInheritable 4, EGetpid, EFork 101, EClose 4,
         EWaitpid 101 (101, 256),
         EWrite 2 ''Parent: Child 1 101 terminated with exit code 256\<newline>'',
         EFork 102, EClose 3, EWaitpid 102 (102, 0)]"
proof -
  have h: "\<not> background (simple_stage ''false'' False)" "fork_results os0 = 101 # [102]"
    "(0::int) < 101" "wait_results os0 = (101, 256) # [(102, 0)]"
    "pipe_results os0 = (3, 4) # []" "fork_results os0 = 101 # 102 # []" "(0::int) < 102"
    "background (simple_stage ''true'' False) \<or> [(102 :: int, 0 :: int)] = (102, 0) # []"
    "\<not> background (simple_stage ''true'' False)"
    by (simp_all add: simple_stage_def os0_def)
  have n: "str_int 101 = ''101''" "str_int 256 = ''256''"
    by (simp_all add: str_int_def str_nat.simps digit_char_def)
  show ?thesis
    using nonzero_exit_is_reported [where c = "simple_stage ''false'' False"
        and w = os0 and rc = 101 and fr = "[102]" and s = "(101, 256)" and sr = "[(102, 0)]"
        and pr = 3 and pw = 4 and ps = "[]" and ?rc1.0 = 101 and ?rc2.0 = 102 and ?fr2.0 = "[]"
        and ?st1.0 = "(101, 256)" and ?st2.0 = "(102, 0)" and wr = "[(102, 0)]" and ?wr2.0 = "[]"
        and ?c0.0 = "simple_stage ''false'' False" and ?c1.0 = "simple_stage ''true'' False"] h
    by (simp add: n)
qed

subsection \<open>C9: the pipe of a pipeline of two stages\<close>

text \<open>
  Claim C9: on a pipeline of two stages the orchestrator, as the parent of both
  processes, returns, in the foreground and in the background; it has then created
  exactly one pipe and closed both of its descriptors, neither of which is open any
  more. And whatever the system answers, when \<open>run_cmds\<close> returns on two stages it
  has created exactly one pipe and closed both of its descriptors (in a child it does
  not return: the child is replaced by the command or exits).
\<close>

theorem pipe_created_once_and_closed_in_parent:
  "(pipe_results w = (pr, pw) # ps \<longrightarrow> fork_results w = rc1 # rc2 # fr \<longrightarrow> 0 < rc1 \<longrightarrow> 0 < rc2 \<longrightarrow>
      wait_results w = st1 # wr \<longrightarrow> (background c1 \<or> wr \<noteq> []) \<longrightarrow>
      fst (run_cmds [c0, c1] w) = Ret ()
      \<and> filter is_pipe (new_events w (snd (run_cmds [c0, c1] w))) = [EPipe pr pw]
      \<and> EClose pr \<in> set (new_events w (snd (run_cmds [c0, c1] w)))
      \<and> EClose pw \<in> set (new_events w (snd (run_cmds [c0, c1] w)))
      \<and> pr \<notin> set (fds (snd (run_cmds [c0, c1] w)))
      \<and> pw \<notin> set (fds (snd (run_cmds [c0, c1] w))))
   \<and> (run_cmds [c0, c1] w = (Ret u, w') \<longrightarrow>
      (\<exists>r' w''. filter is_pipe (new_events w w') = [EPipe r' w'']
         \<and> EClose r' \<in> set (new_events w w') \<and> EClose w'' \<in> set (new_events w w')
         \<and> r' \<notin> set (fds w') \<and> w'' \<notin> set (fds w')))"
proof -
  have parent: "fst (run_cmds [c0, c1] w) = Ret ()
      \<and> filter is_pipe (new_events w (snd (run_cmds [c0, c1] w))) = [EPipe pr pw]
      \<and> EClose pr \<in> set (new_events w (snd (run_cmds [c0, c1] w)))
      \<and> EClose pw \<in> set (new_events w (snd (run_cmds [c0, c1] w)))
      \<and> pr \<notin> set (fds (snd (run_cmds [c0, c1] w)))
      \<and> pw \<notin> set (fds (snd (run_cmds [c0, c1] w)))"
    if a: "pipe_results w = (pr, pw) # ps" "fork_results w = rc1 # rc2 # fr" "0 < rc1" "0 < rc2"
      "wait_results w = st1 # wr" and b: "background c1 \<or> wr \<noteq> []"
  proof (cases "background c1")
    case True
    show ?thesis
      using True a by (simp add: run_pipe_bg new_events_def)
  next
    case False
    then obtain st2 wr2 where "wr = st2 # wr2"
      using b by (cases wr) auto
    then show ?thesis
      using False a by (simp add: run_pipe_fg new_events_def)
  qed
  show ?thesis
    using parent run_pipe_returns [of c0 c1 w u w'] by blast
qed

theorem pipe_created_once_and_closed_witness:
  "pipe_results os0 = (3, 4) # [] \<and> fork_results os0 = 101 # 102 # [] \<and> (0::int) < 101
   \<and> (0::int) < 102 \<and> wait_results os0 = (101, 256) # [(102, 0)]
   \<and> (background (simple_stage ''wc'' False) \<or> [(102 :: int, 0 :: int)] \<noteq> [])
   \<and> fst (run_cmds [simple_stage ''ls'' False, simple_stage ''wc'' False] os0) = Ret ()
   \<and> filter is_pipe
        (new_events os0 (snd (run_cmds [simple_stage ''ls'' False, simple_stage ''wc'' False] os0)))
       = [EPipe 3 4]
   \<and> 3 \<notin> set (fds (snd (run_cmds [simple_stage ''ls'' False, simple_stage ''wc'' False] os0)))
   \<and> 4 \<notin> set (fds (snd (run_cmds [simple_stage ''ls'' False, simple_stage ''wc'' False] os0)))"
proof -
  have h: "pipe_results os0 = (3, 4) # []" "fork_results os0 = 101 # 102 # []" "(0::int) < 101"
    "(0::int) < 102" "wait_results os0 = (101, 256) # [(102, 0)]"
    "background (simple_stage ''wc'' False) \<or> [(102 :: int, 0 :: int)] \<noteq> []"
    by (simp_all add: os0_def)
  show ?thesis
    using pipe_created_once_and_closed_in_parent [where w = os0 and pr = 3 and pw = 4
        and ps = "[]" and ?rc1.0 = 101 and ?rc2.0 = 102 and fr = "[]" and ?st1.0 = "(101, 256)"
        and wr = "[(102, 0)]" and ?c0.0 = "simple_stage ''ls'' False"
        and ?c1.0 = "simple_stage ''wc'' False"] h
    by simp
qed

subsection \<open>C10: a marker without a path\<close>

text \<open>
  Claim C10, as it is stated, says that whenever a segment has a marker with nothing
  but whitespace after it, the redirection of that direction is \<open>None\<close> and the marker
  is one of the arguments. In \<^verbatim>\<open>cat <<\<close> the last marker has no path, yet it is taken
  as the path of the marker before it: the input is \<^verbatim>\<open><\<close> and the arguments are
  \<^verbatim>\<open>["cat"]\<close>. In \<^verbatim>\<open>cat x<\<close> the marker stays, but inside the argument \<^verbatim>\<open>x<\<close>.
\<close>

theorem bare_marker_consumed_counterexample:
  "parser ''cat <<'' os0 =
     (PList [\<lparr>cmd = ''cat'', args = [''cat''], input_file = Some ''<'',
              output_file = None, background = False\<rparr>], os0)
   \<and> parser ''cat x<'' os0 =
     (PList [\<lparr>cmd = ''cat'', args = [''cat'', ''x<''], input_file = None,
              output_file = None, background = False\<rparr>], os0)"
  by (simp add: parse_eval)

text \<open>
  Claim C10, amended: parsing \<^verbatim>\<open>cat <\<close> gives the arguments \<^verbatim>\<open>["cat", "<"]\<close> with no
  redirection. More generally, take a segment that ends with a marker followed by
  nothing but whitespace, where the marker's character does not occur before it, the
  text before it is empty or ends with whitespace, and the last character before it
  that is not whitespace is not a marker. Parsing it does not fail and gives a stage
  whose redirection of that marker's direction is \<open>None\<close> and whose arguments are the
  words of the text before the marker (its redirection clauses removed) followed by
  the marker itself as the last argument.
\<close>

theorem bare_marker_stays_in_args:
  "parser ''cat <'' w =
     (PList [\<lparr>cmd = ''cat'', args = [''cat'', ''<''], input_file = None,
              output_file = None, background = False\<rparr>], w)
   \<and> (is_marker m \<longrightarrow> all_space post \<longrightarrow> m \<notin> set pre \<longrightarrow> tail_ok pre \<longrightarrow>
        (\<exists>st. parse_segment (pre @ m # post) bg = Some st
           \<and> args st = split_ws (re_sub_redir pre) @ [[m]]
           \<and> cmd st = hd (args st)
           \<and> (if m = CHR ''<'' then input_file st else output_file st) = None))"
proof -
  have 1: "parser ''cat <'' w =
     (PList [\<lparr>cmd = ''cat'', args = [''cat'', ''<''], input_file = None,
              output_file = None, background = False\<rparr>], w)"
    by (simp add: parse_eval)
  show ?thesis
    using 1 parse_segment_bare_marker [of m post pre bg] by blast
qed

theorem bare_marker_stays_in_args_witness:
  "is_marker (CHR ''<'') \<and> all_space '' '' \<and> CHR ''<'' \<notin> set ''sort -r > out '' 
   \<and> tail_ok ''sort -r > out ''
   \<and> split_ws (re_sub_redir ''sort -r > out '') @ [''<''] = [''sort'', ''-r'', ''<'']
   \<and> (\<exists>st. parse_segment ''sort -r > out < '' True = Some st
         \<and> args st = [''sort'', ''-r'', ''<''] \<and> cmd st = ''sort'' \<and> input_file st = None)"
proof -
  have h1: "is_marker (CHR ''<'')" by (simp add: is_marker_def)
  have h2: "all_space '' ''" by (simp add: all_space_def is_space_def)
  have h3: "CHR ''<'' \<notin> set ''sort -r > out ''" by simp
  have h4: "tail_ok ''sort -r > out ''" by (simp add: tail_ok_def is_space_def is_marker_def)
  have a: "split_ws (re_sub_redir ''sort -r > out '') @ [''<''] = [''sort'', ''-r'', ''<'']"
    by (simp add: parse_eval)
  obtain st where st: "parse_segment (''sort -r > out '' @ CHR ''<'' # '' '') True = Some st"
      "args st = split_ws (re_sub_redir ''sort -r > out '') @ [''<'']"
      "cmd st = hd (args st)"
      "(if CHR ''<'' = CHR ''<'' then input_file st else output_file st) = None"
    using bare_marker_stays_in_args [of os0 "CHR ''<''" "'' ''" "''sort -r > out ''" True]
      h1 h2 h3 h4 by blast
  have "parse_segment ''sort -r > out < '' True = Some st" using st(1) by simp
  moreover have "args st = [''sort'', ''-r'', ''<'']" using st(2) by (simp only: a)
  moreover have "cmd st = ''sort''" using st(3) st(2) by (simp only: a list.sel)
  moreover have "input_file st = None" using st(4) by simp
  ultimately show ?thesis
    using h1 h2 h3 h4 a by blast
qed

end
